theory Spec2Isabelle
  imports Main "HOL-Library.AList"
begin

section \<open>The paginated, rate-limit-aware fetch core of the Slack exporter\<close>

text \<open>
  The development embeds \<^verbatim>\<open>get_data\<close>, \<^verbatim>\<open>get_at_cursor\<close> and
  \<^verbatim>\<open>paginated_get\<close> of \<^verbatim>\<open>src/exporter_improved.py\<close>. The network and the
  clock are the only effects of these functions besides printing; they are threaded
  through the functions as an explicit \<open>world\<close>. Output written with \<^verbatim>\<open>print\<close> is
  not modelled.
\<close>

subsection \<open>Python values\<close>

text \<open>
  The values that \<^verbatim>\<open>r.json()\<close> decodes to and that a parameter dictionary holds. A
  dictionary is the list of its items in insertion order (a dictionary has no two items
  with the same key); a lookup is \<open>map_of\<close>, an assignment \<^verbatim>\<open>d[k] = v\<close> is
  \<open>AList.update\<close>, which overwrites in place or appends. A float carries its literal text
  only: no function below inspects one. A string is a list of characters, one per code
  point up to U+00FF.
\<close>

datatype pyval =
    PNone
  | PBool bool
  | PInt int
  | PFloat string
  | PStr string
  | PList "pyval list"
  | PDict "(string \<times> pyval) list"

type_synonym pydict = "(string \<times> pyval) list"

text \<open>
  The ways the three functions stop without returning: \<^verbatim>\<open>sys.exit(1)\<close> is
  \<open>SystemExit 1\<close>; the others are Python exceptions that the source does not catch.
  \<open>ConnectionError\<close> is \<^verbatim>\<open>requests.get\<close> failing to obtain a response;
  \<open>OverflowError\<close> and \<open>OSError\<close> come from \<^verbatim>\<open>time.sleep\<close>.
\<close>

datatype py_error =
    SystemExit int
  | KeyError string
  | TypeError
  | ValueError
  | JSONDecodeError
  | ConnectionError
  | OverflowError
  | OSError

subsection \<open>Responses and the world\<close>

text \<open>
  \<open>body\<close> is the result of \<^verbatim>\<open>r.json()\<close>: \<open>None\<close> when the body is not JSON and
  the call raises. \<open>headers\<close> is looked up with \<open>map_of\<close>, as \<^verbatim>\<open>r.headers[name]\<close>;
  the library compares header names without regard to case, so the list holds a header
  under the spelling the source asks for.
\<close>

record response =
  status_code :: int
  reason :: string
  headers :: "(string \<times> string) list"
  body :: "pyval option"

text \<open>
  The world: the responses the server will give to the next requests, in order; the log
  of every call of the transport (endpoint, the parameters as they were at the call, and
  the response received, if any); the log of every sleep.
\<close>

record world =
  pending :: "response list"
  requests :: "(string \<times> pydict \<times> response option) list"
  sleeps :: "int list"

subsection \<open>Library functions used by the source\<close>

text \<open>\<^verbatim>\<open>str.isspace\<close> on the code points below U+0100.\<close>

definition is_space :: "char \<Rightarrow> bool" where
  "is_space c = ((of_char c :: nat) \<in> {9, 10, 11, 12, 13, 28, 29, 30, 31, 32, 133, 160})"

text \<open>\<^verbatim>\<open>str.strip()\<close> with no argument.\<close>

definition strip :: "string \<Rightarrow> string" where
  "strip s = rev (dropWhile is_space (rev (dropWhile is_space s)))"

definition is_digit :: "char \<Rightarrow> bool" where
  "is_digit c = (48 \<le> (of_char c :: nat) \<and> (of_char c :: nat) \<le> 57)"

definition digit_val :: "char \<Rightarrow> nat" where
  "digit_val c = of_char c - 48"

text \<open>
  The whitespace that \<^verbatim>\<open>int\<close> drops around a literal: of the characters that
  \<^verbatim>\<open>str.isspace\<close> accepts, the separators U+001C to U+001F are not among them.
\<close>

definition is_int_space :: "char \<Rightarrow> bool" where
  "is_int_space c = ((of_char c :: nat) \<in> {9, 10, 11, 12, 13, 32, 133, 160})"

definition int_strip :: "string \<Rightarrow> string" where
  "int_strip s = rev (dropWhile is_int_space (rev (dropWhile is_int_space s)))"

text \<open>
  The limit of \<^verbatim>\<open>int\<close> on the digits of a decimal literal
  (\<^verbatim>\<open>sys.int_info.default_max_str_digits\<close>); leading zeros count, underscores do not.
\<close>

definition INT_MAX_STR_DIGITS :: nat where
  "INT_MAX_STR_DIGITS = 4300"

text \<open>
  The digits after the first one of a decimal literal; a single underscore may stand
  between two digits.
\<close>

fun parse_digits :: "nat \<Rightarrow> string \<Rightarrow> nat option" where
  "parse_digits acc [] = Some acc"
| "parse_digits acc [c] = (if is_digit c then Some (10 * acc + digit_val c) else None)"
| "parse_digits acc (c # d # ds) =
     (if is_digit c then parse_digits (10 * acc + digit_val c) (d # ds)
      else if c = CHR ''_'' \<and> is_digit d then parse_digits (10 * acc + digit_val d) ds
      else None)"

text \<open>
  \<^verbatim>\<open>int(s)\<close> for a string: surrounding whitespace is dropped, one sign is allowed,
  then come the digits. \<open>None\<close> is the \<^verbatim>\<open>ValueError\<close> of a string that is no integer
  literal, or that has more digits than the limit.
\<close>

definition py_int :: "string \<Rightarrow> int option" where
  "py_int s =
     (let t = int_strip s;
          neg = (case t of [] \<Rightarrow> False | c # _ \<Rightarrow> c = CHR ''-'');
          u = (case t of [] \<Rightarrow> []
               | c # cs \<Rightarrow> if c = CHR ''-'' \<or> c = CHR ''+'' then cs else c # cs)
      in case u of
           [] \<Rightarrow> None
         | c # cs \<Rightarrow>
             if is_digit c \<and> length (filter is_digit u) \<le> INT_MAX_STR_DIGITS
             then map_option (\<lambda>n. if neg then - int n else int n) (parse_digits (digit_val c) cs)
             else None)"

text \<open>\<^verbatim>\<open>sub in s\<close> for two strings.\<close>

fun str_contains :: "string \<Rightarrow> string \<Rightarrow> bool" where
  "str_contains sub [] = (sub = [])"
| "str_contains sub (c # cs) = (take (length sub) (c # cs) = sub \<or> str_contains sub cs)"

text \<open>
  \<^verbatim>\<open>v[key]\<close> with a string key. Only a dictionary can be subscripted by a string:
  a list or a string raises \<^verbatim>\<open>TypeError\<close> (indices must be integers), the other
  values are not subscriptable.
\<close>

definition subscript :: "pyval \<Rightarrow> string \<Rightarrow> py_error + pyval" where
  "subscript v key =
     (case v of
        PDict kv \<Rightarrow> (case map_of kv key of None \<Rightarrow> Inl (KeyError key) | Some x \<Rightarrow> Inr x)
      | _ \<Rightarrow> Inl TypeError)"

text \<open>
  \<^verbatim>\<open>key in v\<close> with a string key: a key of a dictionary, an element of a list, a
  substring of a string; \<^verbatim>\<open>TypeError\<close> for a value that is not a container.
\<close>

definition contains :: "string \<Rightarrow> pyval \<Rightarrow> py_error + bool" where
  "contains key v =
     (case v of
        PDict kv \<Rightarrow> Inr (map_of kv key \<noteq> None)
      | PList xs \<Rightarrow> Inr (PStr key \<in> set xs)
      | PStr s \<Rightarrow> Inr (str_contains key s)
      | _ \<Rightarrow> Inl TypeError)"

text \<open>
  \<^verbatim>\<open>str(v).strip() == ""\<close>. For a string, \<^verbatim>\<open>str(v)\<close> is the string itself. For every
  other value \<^verbatim>\<open>str(v)\<close> starts with a character that is not whitespace
  (\<^verbatim>\<open>None\<close>, \<^verbatim>\<open>True\<close>, a digit or sign, a bracket, a brace), so the test is false.
\<close>

definition str_is_blank :: "pyval \<Rightarrow> bool" where
  "str_is_blank v = (case v of PStr s \<Rightarrow> strip s = [] | _ \<Rightarrow> False)"

text \<open>
  The elements that \<^verbatim>\<open>list.extend(v)\<close> appends: the elements of a list, the
  characters of a string, the keys of a dictionary; \<^verbatim>\<open>TypeError\<close> for a value that
  is not iterable.
\<close>

definition iter_items :: "pyval \<Rightarrow> py_error + pyval list" where
  "iter_items v =
     (case v of
        PList xs \<Rightarrow> Inr xs
      | PStr s \<Rightarrow> Inr (map (\<lambda>c. PStr [c]) s)
      | PDict kv \<Rightarrow> Inr (map (\<lambda>(k, _). PStr k) kv)
      | _ \<Rightarrow> Inl TypeError)"

text \<open>
  The largest number of whole seconds that fits the 64-bit count of nanoseconds in which
  \<^verbatim>\<open>time.sleep\<close> holds a duration.
\<close>

definition SLEEP_SECONDS_MAX :: int where
  "SLEEP_SECONDS_MAX = 9223372036"

text \<open>
  \<^verbatim>\<open>time.sleep\<close> with an integer. A duration that does not fit the count of
  nanoseconds raises \<^verbatim>\<open>OverflowError\<close>; this is tested first. A negative duration
  raises \<^verbatim>\<open>ValueError\<close>. A duration of \<open>SLEEP_SECONDS_MAX\<close> seconds gives a deadline
  that the system call refuses (\<^verbatim>\<open>OSError\<close>) whatever the clock reads. A shorter one is
  refused as well once the deadline, counted from the start of the monotonic clock,
  reaches that value; the world has no clock, and this last case, of waits of centuries,
  is outside the model.
\<close>

definition sleep :: "int \<Rightarrow> world \<Rightarrow> (py_error + unit) \<times> world" where
  "sleep t w =
     (if t < - SLEEP_SECONDS_MAX \<or> SLEEP_SECONDS_MAX < t then (Inl OverflowError, w)
      else if t < 0 then (Inl ValueError, w)
      else if t = SLEEP_SECONDS_MAX then (Inl OSError, w)
      else (Inr (), w\<lparr>sleeps := sleeps w @ [t]\<rparr>))"

subsection \<open>The transport and the retry layer\<close>

definition ADDITIONAL_SLEEP_TIME :: int where
  "ADDITIONAL_SLEEP_TIME = 2"

definition MAX_RETRIES :: nat where
  "MAX_RETRIES = 10"

text \<open>
  \<^verbatim>\<open>_get_data\<close>: one GET request. The server answers with the next pending response;
  with none left, \<^verbatim>\<open>requests.get\<close> raises.
\<close>

definition raw_get_data :: "string \<Rightarrow> pydict \<Rightarrow> world \<Rightarrow> (py_error + response) \<times> world" where
  "raw_get_data url params w =
     (case pending w of
        [] \<Rightarrow> (Inl ConnectionError, w\<lparr>requests := requests w @ [(url, params, None)]\<rparr>)
      | r # rs \<Rightarrow>
          (Inr r, w\<lparr>pending := rs, requests := requests w @ [(url, params, Some r)]\<rparr>))"

text \<open>
  The \<^verbatim>\<open>while attempt < MAX_RETRIES\<close> loop of \<^verbatim>\<open>get_data\<close>, from a given value
  of \<^verbatim>\<open>attempt\<close>. Beside the response it returns the value of \<^verbatim>\<open>attempt\<close> at the
  \<^verbatim>\<open>return\<close>.
\<close>

function get_data_loop ::
  "string \<Rightarrow> pydict \<Rightarrow> nat \<Rightarrow> world \<Rightarrow> (py_error + response \<times> nat) \<times> world" where
  "get_data_loop url params attempt w =
     (if attempt < MAX_RETRIES then
        (case raw_get_data url params w of
           (Inl e, w1) \<Rightarrow> (Inl e, w1)
         | (Inr r, w1) \<Rightarrow>
             if status_code r \<noteq> 429 then (Inr (r, attempt + 1), w1)
             else
               (case map_of (headers r) ''Retry-After'' of
                  None \<Rightarrow> (Inl (KeyError ''Retry-After''), w1)
                | Some h \<Rightarrow>
                    (case py_int h of
                       None \<Rightarrow> (Inl ValueError, w1)
                     | Some retry_after \<Rightarrow>
                         (case sleep (retry_after + ADDITIONAL_SLEEP_TIME) w1 of
                            (Inl e, w2) \<Rightarrow> (Inl e, w2)
                          | (Inr _, w2) \<Rightarrow> get_data_loop url params (attempt + 1) w2))))
      else (Inl (SystemExit 1), w))"
  by pat_completeness auto
termination
  by (relation "measure (\<lambda>(url, params, attempt, w). MAX_RETRIES - attempt)") auto

definition get_data :: "string \<Rightarrow> pydict \<Rightarrow> world \<Rightarrow> (py_error + response) \<times> world" where
  "get_data url params w =
     (case get_data_loop url params 0 w of
        (Inl e, w1) \<Rightarrow> (Inl e, w1)
      | (Inr (r, _), w1) \<Rightarrow> (Inr r, w1))"

subsection \<open>One page\<close>

text \<open>Lines 66 to 70 of the source: the continuation token of a decoded payload.\<close>

definition extract_next_cursor :: "pyval \<Rightarrow> py_error + pyval" where
  "extract_next_cursor d =
     (case contains ''response_metadata'' d of
        Inl e \<Rightarrow> Inl e
      | Inr False \<Rightarrow> Inr PNone
      | Inr True \<Rightarrow>
          (case subscript d ''response_metadata'' of
             Inl e \<Rightarrow> Inl e
           | Inr m \<Rightarrow>
               (case contains ''next_cursor'' m of
                  Inl e \<Rightarrow> Inl e
                | Inr False \<Rightarrow> Inr PNone
                | Inr True \<Rightarrow>
                    (case subscript m ''next_cursor'' of
                       Inl e \<Rightarrow> Inl e
                     | Inr next_cursor \<Rightarrow>
                         Inr (if str_is_blank next_cursor then PNone else next_cursor)))))"

text \<open>
  \<^verbatim>\<open>get_at_cursor\<close>. The assignment \<^verbatim>\<open>params["cursor"] = cursor\<close> writes into the
  caller's dictionary, so the dictionary is returned with the result.
\<close>

definition get_at_cursor ::
  "string \<Rightarrow> pydict \<Rightarrow> pyval \<Rightarrow> world \<Rightarrow> (py_error + pyval \<times> pyval) \<times> pydict \<times> world" where
  "get_at_cursor url params cursor w =
     (let params1 = (if cursor \<noteq> PNone then AList.update ''cursor'' cursor params else params)
      in case get_data url params1 w of
           (Inl e, w1) \<Rightarrow> (Inl e, params1, w1)
         | (Inr r, w1) \<Rightarrow>
             if status_code r \<noteq> 200 then (Inl (SystemExit 1), params1, w1)
             else
               (case body r of
                  None \<Rightarrow> (Inl JSONDecodeError, params1, w1)
                | Some d \<Rightarrow>
                    (case subscript d ''ok'' of
                       Inl e \<Rightarrow> (Inl e, params1, w1)
                     | Inr ok \<Rightarrow>
                         if ok = PBool False then (Inl (SystemExit 1), params1, w1)
                         else
                           (case extract_next_cursor d of
                              Inl e \<Rightarrow> (Inl e, params1, w1)
                            | Inr next_cursor \<Rightarrow> (Inr (next_cursor, d), params1, w1)))))"

subsection \<open>The accumulation loop\<close>

text \<open>
  The \<^verbatim>\<open>try\<close> block of \<^verbatim>\<open>paginated_get\<close>: the new value of \<^verbatim>\<open>result\<close>. A
  \<^verbatim>\<open>KeyError\<close> is caught and turned into \<^verbatim>\<open>sys.exit(1)\<close>; any other exception
  passes.
\<close>

definition merge_page :: "string option \<Rightarrow> pyval \<Rightarrow> pyval list \<Rightarrow> py_error + pyval list" where
  "merge_page combine_key data result =
     (case combine_key of
        None \<Rightarrow>
          (case iter_items data of Inl e \<Rightarrow> Inl e | Inr xs \<Rightarrow> Inr (result @ xs))
      | Some key \<Rightarrow>
          (case subscript data key of
             Inl (KeyError _) \<Rightarrow> Inl (SystemExit 1)
           | Inl e \<Rightarrow> Inl e
           | Inr v \<Rightarrow>
               (case iter_items v of Inl e \<Rightarrow> Inl e | Inr xs \<Rightarrow> Inr (result @ xs))))"

declare get_data_loop.simps [simp del]

text \<open>A response that the retry layer returns has been taken from the pending ones.\<close>

lemma get_data_loop_pending:
  "get_data_loop url params attempt w = (Inr x, w') \<Longrightarrow> length (pending w') < length (pending w)"
proof (induction url params attempt w rule: get_data_loop.induct)
  case (1 url params attempt w)
  show ?case
  proof (cases "pending w")
    case Nil
    with "1.prems" show ?thesis
      by (subst (asm) get_data_loop.simps) (simp add: raw_get_data_def split: if_splits)
  next
    case (Cons r rs)
    let ?w1 = "w\<lparr>pending := rs, requests := requests w @ [(url, params, Some r)]\<rparr>"
    have raw: "raw_get_data url params w = (Inr r, ?w1)"
      by (simp add: raw_get_data_def Cons)
    show ?thesis
    proof (cases "status_code r = 429")
      case False
      with "1.prems" raw Cons show ?thesis
        by (subst (asm) get_data_loop.simps) (auto split: if_splits)
    next
      case True
      from "1.prems" have lt: "attempt < MAX_RETRIES"
        by (subst (asm) get_data_loop.simps) (simp split: if_splits)
      from "1.prems" lt raw True obtain h n w2 where
        h: "map_of (headers r) ''Retry-After'' = Some h" and n: "py_int h = Some n"
        and sl: "sleep (n + ADDITIONAL_SLEEP_TIME) ?w1 = (Inr (), w2)"
        and rec: "get_data_loop url params (attempt + 1) w2 = (Inr x, w')"
        by (subst (asm) get_data_loop.simps)
           (auto split: if_splits option.splits prod.splits sum.splits)
      from sl have p2: "pending w2 = pending ?w1"
        by (auto simp: sleep_def split: if_splits)
      have "length (pending w') < length (pending w2)"
        by (rule "1.IH" [OF lt raw [symmetric] refl _ h n sl [symmetric] refl rec])
           (simp add: True)
      then show ?thesis by (simp add: Cons p2)
    qed
  qed
qed

lemma get_data_pending:
  "get_data url params w = (Inr r, w') \<Longrightarrow> length (pending w') < length (pending w)"
  by (auto simp: get_data_def split: prod.splits sum.splits dest: get_data_loop_pending)

lemma get_at_cursor_pending:
  "get_at_cursor url params cursor w = (Inr x, params1, w') \<Longrightarrow>
   length (pending w') < length (pending w)"
  by (auto simp: get_at_cursor_def Let_def
           split: prod.splits sum.splits if_splits option.splits dest: get_data_pending)

text \<open>
  The \<^verbatim>\<open>while True\<close> loop of \<^verbatim>\<open>paginated_get\<close>, from given values of
  \<^verbatim>\<open>next_cursor\<close>, \<^verbatim>\<open>result\<close> and \<^verbatim>\<open>page_count\<close>. Beside the result it
  returns the value of \<^verbatim>\<open>page_count\<close> at the \<^verbatim>\<open>return\<close>, and the caller's
  parameter dictionary as the calls of \<^verbatim>\<open>get_at_cursor\<close> left it. Every page
  consumes a pending response, which bounds the loop. The length that line 94 prints is
  taken of a value that \<^verbatim>\<open>extend\<close> has just iterated, or of the payload dictionary,
  so it raises nothing.
\<close>

function paginated_loop ::
  "string \<Rightarrow> pydict \<Rightarrow> string option \<Rightarrow> pyval \<Rightarrow> pyval list \<Rightarrow> nat \<Rightarrow> world \<Rightarrow>
   (py_error + pyval list \<times> nat) \<times> pydict \<times> world" where
  "paginated_loop url params combine_key next_cursor result page_count w =
     (case get_at_cursor url params next_cursor w of
        (Inl e, params1, w1) \<Rightarrow> (Inl e, params1, w1)
      | (Inr (next_cursor1, data), params1, w1) \<Rightarrow>
          (case merge_page combine_key data result of
             Inl e \<Rightarrow> (Inl e, params1, w1)
           | Inr result1 \<Rightarrow>
               if next_cursor1 = PNone then (Inr (result1, page_count + 1), params1, w1)
               else paginated_loop url params1 combine_key next_cursor1 result1
                      (page_count + 1) w1))"
  by pat_completeness auto
termination
proof (relation "measure (\<lambda>(url, params, combine_key, next_cursor, result, page_count, w).
                    length (pending w))")
  show "wf (measure (\<lambda>(url, params, combine_key, next_cursor, result, page_count, w).
                    length (pending w)))"
    by simp
next
  fix url :: string and params params1 :: pydict and combine_key :: "string option"
    and next_cursor :: pyval and result :: "pyval list" and page_count :: nat and w w1 :: world
    and x xa y x2 xb ya x2a
  assume "(x, y) = get_at_cursor url params next_cursor w" "(params1, w1) = y" "x = Inr x2"
  then have "get_at_cursor url params next_cursor w = (Inr x2, params1, w1)"
    by simp
  then have "length (pending w1) < length (pending w)"
    by (rule get_at_cursor_pending)
  then show "((url, params1, combine_key, xb, x2a, page_count + 1, w1),
              url, params, combine_key, next_cursor, result, page_count, w)
             \<in> measure (\<lambda>(url, params, combine_key, next_cursor, result, page_count, w).
                    length (pending w))"
    by simp
qed

definition paginated_get ::
  "string \<Rightarrow> pydict \<Rightarrow> string option \<Rightarrow> world \<Rightarrow> (py_error + pyval list) \<times> pydict \<times> world" where
  "paginated_get url params combine_key w =
     (case paginated_loop url params combine_key PNone [] 0 w of
        (Inl e, params1, w1) \<Rightarrow> (Inl e, params1, w1)
      | (Inr (result, _), params1, w1) \<Rightarrow> (Inr result, params1, w1))"


subsection \<open>Notions and scenarios of the statements\<close>

text \<open>
  The wait that a rate-limit response causes, when it causes one: the response has status
  429, a \<^verbatim>\<open>Retry-After\<close> header that \<^verbatim>\<open>int\<close> accepts, and the resulting duration is
  one that \<^verbatim>\<open>sleep\<close> accepts.
\<close>

definition retry_wait :: "response \<Rightarrow> int option" where
  "retry_wait r =
     (if status_code r = 429 then
        (case map_of (headers r) ''Retry-After'' of
           None \<Rightarrow> None
         | Some h \<Rightarrow>
             (case py_int h of
                None \<Rightarrow> None
              | Some n \<Rightarrow>
                  if 0 \<le> n + ADDITIONAL_SLEEP_TIME \<and> n + ADDITIONAL_SLEEP_TIME < SLEEP_SECONDS_MAX
                  then Some (n + ADDITIONAL_SLEEP_TIME)
                  else None))
      else None)"

text \<open>A 429 response with the given \<^verbatim>\<open>Retry-After\<close> header.\<close>

definition rate_limited :: "string \<Rightarrow> response" where
  "rate_limited h =
     \<lparr>status_code = 429, reason = ''Too Many Requests'',
      headers = [(''Retry-After'', h)], body = None\<rparr>"

text \<open>A response with the given status and decoded JSON body.\<close>

definition json_response :: "int \<Rightarrow> pyval \<Rightarrow> response" where
  "json_response code d = \<lparr>status_code = code, reason = [], headers = [], body = Some d\<rparr>"

text \<open>A world in which nothing has happened yet and the server will answer with \<open>rs\<close>.\<close>

definition fresh_world :: "response list \<Rightarrow> world" where
  "fresh_world rs = \<lparr>pending = rs, requests = [], sleeps = []\<rparr>"

text \<open>
  The parameter dictionary after the first two lines of \<^verbatim>\<open>get_at_cursor\<close>: it is
  the dictionary every request of that call is sent with.
\<close>

definition with_cursor :: "pydict \<Rightarrow> pyval \<Rightarrow> pydict" where
  "with_cursor params cursor =
     (if cursor \<noteq> PNone then AList.update ''cursor'' cursor params else params)"

text \<open>
  The continuation token of a payload whose \<^verbatim>\<open>response_metadata\<close>, when there is one,
  is an object.
\<close>

definition page_cursor :: "pydict \<Rightarrow> pyval" where
  "page_cursor kv =
     (case map_of kv ''response_metadata'' of
        Some (PDict m) \<Rightarrow>
          (case map_of m ''next_cursor'' of
             Some c \<Rightarrow> if str_is_blank c then PNone else c
           | None \<Rightarrow> PNone)
      | _ \<Rightarrow> PNone)"

text \<open>The payload has no \<^verbatim>\<open>response_metadata\<close>, or it is an object.\<close>

definition metadata_is_object :: "pydict \<Rightarrow> bool" where
  "metadata_is_object kv =
     (case map_of kv ''response_metadata'' of
        None \<Rightarrow> True
      | Some (PDict m) \<Rightarrow> True
      | Some _ \<Rightarrow> False)"

text \<open>
  The payload has no continuation token: no \<^verbatim>\<open>response_metadata\<close>, or one without
  \<^verbatim>\<open>next_cursor\<close>, or one whose \<^verbatim>\<open>next_cursor\<close> is null, empty or made of
  whitespace only.
\<close>

definition cursor_is_blank :: "pydict \<Rightarrow> bool" where
  "cursor_is_blank kv =
     (case map_of kv ''response_metadata'' of
        None \<Rightarrow> True
      | Some (PDict m) \<Rightarrow>
          (case map_of m ''next_cursor'' of
             None \<Rightarrow> True
           | Some PNone \<Rightarrow> True
           | Some (PStr s) \<Rightarrow> list_all is_space s
           | Some _ \<Rightarrow> False)
      | Some _ \<Rightarrow> False)"

text \<open>
  A well-formed page for an item key: status 200, a payload that is an object with an
  \<^verbatim>\<open>ok\<close> other than false, a \<^verbatim>\<open>response_metadata\<close> that is absent or an object,
  and a list under the item key.
\<close>

definition is_page :: "string \<Rightarrow> response \<Rightarrow> bool" where
  "is_page key r =
     (status_code r = 200 \<and>
      (case body r of
         Some (PDict kv) \<Rightarrow>
           (case map_of kv ''ok'' of Some ok \<Rightarrow> ok \<noteq> PBool False | None \<Rightarrow> False)
           \<and> metadata_is_object kv
           \<and> (case map_of kv key of Some (PList xs) \<Rightarrow> True | _ \<Rightarrow> False)
       | _ \<Rightarrow> False))"

text \<open>The items of a page, and the continuation token it carries.\<close>

definition items_of :: "string \<Rightarrow> response \<Rightarrow> pyval list" where
  "items_of key r =
     (case body r of
        Some (PDict kv) \<Rightarrow> (case map_of kv key of Some (PList xs) \<Rightarrow> xs | _ \<Rightarrow> [])
      | _ \<Rightarrow> [])"

definition cursor_of :: "response \<Rightarrow> pyval" where
  "cursor_of r = (case body r of Some (PDict kv) \<Rightarrow> page_cursor kv | _ \<Rightarrow> PNone)"

text \<open>An entry of the request log.\<close>

type_synonym exchange = "string \<times> pydict \<times> response option"

text \<open>The entries of a parameter dictionary other than \<^verbatim>\<open>cursor\<close>, in their order.\<close>

definition other_params :: "pydict \<Rightarrow> pydict" where
  "other_params p = AList.delete ''cursor'' p"

text \<open>
  A logged request goes to the endpoint \<open>url\<close> and carries the parameters \<open>params\<close>,
  up to the \<^verbatim>\<open>cursor\<close> entry.
\<close>

definition same_request :: "string \<Rightarrow> pydict \<Rightarrow> exchange \<Rightarrow> bool" where
  "same_request url params e =
     (case e of (u, p, ro) \<Rightarrow> u = url \<and> other_params p = other_params params)"

text \<open>
  The \<^verbatim>\<open>cursor\<close> parameter that the request following a logged one has to carry, when
  the logged one had to carry \<open>c\<close> (\<open>None\<close>: no such parameter): the same after a 429
  or an unanswered request, for they belong to the same page; the continuation token of
  the response after any other response. \<open>expected_after\<close> runs this over a log.
\<close>

definition next_expected :: "pyval option \<Rightarrow> response option \<Rightarrow> pyval option" where
  "next_expected c ro =
     (case ro of
        None \<Rightarrow> c
      | Some r \<Rightarrow> if status_code r = 429 then c else Some (cursor_of r))"

fun expected_after :: "pyval option \<Rightarrow> exchange list \<Rightarrow> pyval option" where
  "expected_after c [] = c"
| "expected_after c ((url, p, ro) # es) = expected_after (next_expected c ro) es"

text \<open>
  The requests of a log carry the right \<^verbatim>\<open>cursor\<close> parameter one after the other,
  the first one carrying \<open>c\<close>.
\<close>

fun cursor_chain :: "pyval option \<Rightarrow> exchange list \<Rightarrow> bool" where
  "cursor_chain c [] = True"
| "cursor_chain c ((url, p, ro) # es) =
     (map_of p ''cursor'' = c \<and> cursor_chain (next_expected c ro) es)"

text \<open>Two pages of a channel history: the first points to the second, the second ends.\<close>

definition page_one :: response where
  "page_one =
     json_response 200
       (PDict [(''ok'', PBool True), (''messages'', PList [PInt 1, PInt 2]),
               (''response_metadata'', PDict [(''next_cursor'', PStr ''c2'')])])"

definition page_two :: response where
  "page_two = json_response 200 (PDict [(''ok'', PBool True), (''messages'', PList [PInt 3])])"

text \<open>
  A rate-limit response as claim C2 means it: one on which the code sleeps, for a year at
  most. Ten such sleeps stay far from the deadlines that the system call refuses.
\<close>

definition ONE_YEAR :: int where
  "ONE_YEAR = 31536000"

definition rate_limit_signal :: "response \<Rightarrow> bool" where
  "rate_limit_signal r = (case retry_wait r of None \<Rightarrow> False | Some t \<Rightarrow> t \<le> ONE_YEAR)"

text \<open>
  A logged request goes to the endpoint \<open>url\<close> with the dictionary \<open>params\<close> itself,
  or with \<open>params\<close> in which the cursor that the request carries has been written.
\<close>

definition sent_with :: "string \<Rightarrow> pydict \<Rightarrow> exchange \<Rightarrow> bool" where
  "sent_with url params e =
     (case e of
        (u, p, ro) \<Rightarrow>
          u = url \<and>
          (case map_of p ''cursor'' of
             None \<Rightarrow> p = params
           | Some c \<Rightarrow> p = AList.update ''cursor'' c params))"

subsection \<open>One iteration of the retry loop\<close>

lemma get_data_loop_exhausted:
  "MAX_RETRIES \<le> attempt \<Longrightarrow> get_data_loop url params attempt w = (Inl (SystemExit 1), w)"
  by (subst get_data_loop.simps) simp

lemma get_data_loop_return:
  "attempt < MAX_RETRIES \<Longrightarrow> pending w = r # rs \<Longrightarrow> status_code r \<noteq> 429 \<Longrightarrow>
   get_data_loop url params attempt w =
     (Inr (r, attempt + 1),
      w\<lparr>pending := rs, requests := requests w @ [(url, params, Some r)]\<rparr>)"
  by (subst get_data_loop.simps) (simp add: raw_get_data_def)

lemma get_data_loop_retry:
  "attempt < MAX_RETRIES \<Longrightarrow> pending w = r # rs \<Longrightarrow> retry_wait r = Some t \<Longrightarrow>
   get_data_loop url params attempt w =
     get_data_loop url params (attempt + 1)
       (w\<lparr>pending := rs, requests := requests w @ [(url, params, Some r)],
          sleeps := sleeps w @ [t]\<rparr>)"
  by (subst get_data_loop.simps)
     (auto simp: raw_get_data_def retry_wait_def sleep_def split: if_splits option.splits)

lemma get_data_loop_no_response:
  "attempt < MAX_RETRIES \<Longrightarrow> pending w = [] \<Longrightarrow>
   get_data_loop url params attempt w =
     (Inl ConnectionError, w\<lparr>requests := requests w @ [(url, params, None)]\<rparr>)"
  by (subst get_data_loop.simps) (simp add: raw_get_data_def)

lemma get_data_loop_no_header:
  "attempt < MAX_RETRIES \<Longrightarrow> pending w = r # rs \<Longrightarrow> status_code r = 429 \<Longrightarrow>
   map_of (headers r) ''Retry-After'' = None \<Longrightarrow>
   get_data_loop url params attempt w =
     (Inl (KeyError ''Retry-After''),
      w\<lparr>pending := rs, requests := requests w @ [(url, params, Some r)]\<rparr>)"
  by (subst get_data_loop.simps) (simp add: raw_get_data_def)

lemma retry_wait_rate_limited_3: "retry_wait (rate_limited ''3'') = Some 5"
  by (simp add: retry_wait_def rate_limited_def py_int_def int_strip_def is_int_space_def
      is_digit_def digit_val_def ADDITIONAL_SLEEP_TIME_def SLEEP_SECONDS_MAX_def
      INT_MAX_STR_DIGITS_def)

lemma retry_wait_rate_limited_1: "retry_wait (rate_limited ''1'') = Some 3"
  by (simp add: retry_wait_def rate_limited_def py_int_def int_strip_def is_int_space_def
      is_digit_def digit_val_def ADDITIONAL_SLEEP_TIME_def SLEEP_SECONDS_MAX_def
      INT_MAX_STR_DIGITS_def)

lemma get_data_loop_all_limited:
  "\<forall>r\<in>set rs. retry_wait r \<noteq> None \<Longrightarrow> attempt + length rs = MAX_RETRIES \<Longrightarrow>
   pending w = rs @ rest \<Longrightarrow>
   get_data_loop url params attempt w =
     (Inl (SystemExit 1),
      w\<lparr>pending := rest,
         requests := requests w @ map (\<lambda>r. (url, params, Some r)) rs,
         sleeps := sleeps w @ map (the \<circ> retry_wait) rs\<rparr>)"
proof (induction rs arbitrary: attempt w)
  case Nil
  then show ?case by (simp add: get_data_loop_exhausted)
next
  case (Cons r rs)
  from Cons.prems obtain t where t: "retry_wait r = Some t" by auto
  from Cons.prems have lt: "attempt < MAX_RETRIES" by simp
  let ?w1 = "w\<lparr>pending := rs @ rest, requests := requests w @ [(url, params, Some r)],
          sleeps := sleeps w @ [t]\<rparr>"
  have "get_data_loop url params attempt w = get_data_loop url params (attempt + 1) ?w1"
    using lt Cons.prems(3) t by (intro get_data_loop_retry) simp_all
  also have "\<dots> = (Inl (SystemExit 1),
      ?w1\<lparr>pending := rest,
         requests := requests ?w1 @ map (\<lambda>r. (url, params, Some r)) rs,
         sleeps := sleeps ?w1 @ map (the \<circ> retry_wait) rs\<rparr>)"
    using Cons.prems by (intro Cons.IH) simp_all
  finally show ?case by (simp add: t)
qed

subsection \<open>One page and one iteration of the accumulation loop\<close>

lemma strip_empty_iff: "strip s = [] \<longleftrightarrow> list_all is_space s"
proof
  assume "strip s = []"
  then have a: "\<forall>c\<in>set (dropWhile is_space s). is_space c"
    by (auto simp: strip_def dropWhile_eq_Nil_conv)
  have "dropWhile is_space s = []"
  proof (rule ccontr)
    assume ne: "dropWhile is_space s \<noteq> []"
    then have "\<not> is_space (hd (dropWhile is_space s))" by (rule hd_dropWhile)
    moreover from ne have "hd (dropWhile is_space s) \<in> set (dropWhile is_space s)" by simp
    ultimately show False using a by blast
  qed
  then show "list_all is_space s"
    by (auto simp: dropWhile_eq_Nil_conv list_all_iff)
next
  assume "list_all is_space s"
  then show "strip s = []"
    by (auto simp: strip_def list_all_iff dest: set_dropWhileD)
qed

lemma extract_next_cursor_object:
  "metadata_is_object kv \<Longrightarrow> extract_next_cursor (PDict kv) = Inr (page_cursor kv)"
  by (auto simp: metadata_is_object_def extract_next_cursor_def page_cursor_def contains_def
      subscript_def split: option.splits pyval.splits)

lemma cursor_is_blank_page_cursor:
  "cursor_is_blank kv \<Longrightarrow> metadata_is_object kv \<and> page_cursor kv = PNone"
  by (auto simp: cursor_is_blank_def metadata_is_object_def page_cursor_def str_is_blank_def
      strip_empty_iff split: option.splits pyval.splits)

lemma get_data_return:
  "pending w = r # rs \<Longrightarrow> status_code r \<noteq> 429 \<Longrightarrow>
   get_data url params w =
     (Inr r, w\<lparr>pending := rs, requests := requests w @ [(url, params, Some r)]\<rparr>)"
  by (simp add: get_data_def get_data_loop_return MAX_RETRIES_def)

lemma get_at_cursor_response:
  "get_data url (with_cursor params cursor) w = (Inr r, w1) \<Longrightarrow>
   get_at_cursor url params cursor w =
     (if status_code r \<noteq> 200 then Inl (SystemExit 1)
      else
        (case body r of
           None \<Rightarrow> Inl JSONDecodeError
         | Some d \<Rightarrow>
             (case subscript d ''ok'' of
                Inl e \<Rightarrow> Inl e
              | Inr ok \<Rightarrow>
                  if ok = PBool False then Inl (SystemExit 1)
                  else
                    (case extract_next_cursor d of
                       Inl e \<Rightarrow> Inl e
                     | Inr next_cursor \<Rightarrow> Inr (next_cursor, d)))),
      with_cursor params cursor, w1)"
  by (simp add: get_at_cursor_def with_cursor_def split: option.splits sum.splits)

lemma get_at_cursor_failed:
  "get_data url (with_cursor params cursor) w = (Inl e, w1) \<Longrightarrow>
   get_at_cursor url params cursor w = (Inl e, with_cursor params cursor, w1)"
  by (simp add: get_at_cursor_def with_cursor_def)

declare paginated_loop.simps [simp del]

lemma paginated_loop_step:
  "get_at_cursor url params cursor w = (Inr (nc, d), p1, w1) \<Longrightarrow>
   paginated_loop url params combine_key cursor result page_count w =
     (case merge_page combine_key d result of
        Inl e \<Rightarrow> (Inl e, p1, w1)
      | Inr result1 \<Rightarrow>
          if nc = PNone then (Inr (result1, page_count + 1), p1, w1)
          else paginated_loop url p1 combine_key nc result1 (page_count + 1) w1)"
  by (subst paginated_loop.simps) simp

lemma paginated_loop_failed:
  "get_at_cursor url params cursor w = (Inl e, p1, w1) \<Longrightarrow>
   paginated_loop url params combine_key cursor result page_count w = (Inl e, p1, w1)"
  by (subst paginated_loop.simps) simp

lemma extract_next_cursor_not_exit: "extract_next_cursor d \<noteq> Inl (SystemExit n)"
  by (auto simp: extract_next_cursor_def contains_def subscript_def
      split: sum.splits pyval.splits option.splits bool.splits)

lemma subscript_not_exit: "subscript d k \<noteq> Inl (SystemExit n)"
  by (auto simp: subscript_def split: pyval.splits option.splits)


lemma paginated_loop_page:
  assumes "pending w = r # rs" and "is_page key r"
  shows "paginated_loop url params (Some key) cursor result page_count w =
     (if cursor_of r = PNone
      then (Inr (result @ items_of key r, page_count + 1), with_cursor params cursor,
            w\<lparr>pending := rs,
              requests := requests w @ [(url, with_cursor params cursor, Some r)]\<rparr>)
      else paginated_loop url (with_cursor params cursor) (Some key) (cursor_of r)
             (result @ items_of key r) (page_count + 1)
             (w\<lparr>pending := rs,
                requests := requests w @ [(url, with_cursor params cursor, Some r)]\<rparr>))"
proof -
  let ?p1 = "with_cursor params cursor"
  let ?w1 = "w\<lparr>pending := rs, requests := requests w @ [(url, ?p1, Some r)]\<rparr>"
  from assms(2) have st: "status_code r = 200"
    by (simp add: is_page_def)
  from assms(2) obtain kv where b: "body r = Some (PDict kv)"
    by (cases "body r") (auto simp: is_page_def split: pyval.splits)
  from assms(2) b have obj: "metadata_is_object kv"
    and okc: "(case map_of kv ''ok'' of Some ok \<Rightarrow> ok \<noteq> PBool False | None \<Rightarrow> False)"
    and xsc: "(case map_of kv key of Some (PList xs) \<Rightarrow> True | _ \<Rightarrow> False)"
    by (simp_all add: is_page_def)
  from okc obtain ok where ok: "map_of kv ''ok'' = Some ok" "ok \<noteq> PBool False"
    by (cases "map_of kv ''ok''") auto
  from xsc obtain xs where xs: "map_of kv key = Some (PList xs)"
    by (cases "map_of kv key") (auto split: pyval.splits)
  from st have "status_code r \<noteq> 429" by simp
  then have g: "get_data url ?p1 w = (Inr r, ?w1)"
    using assms(1) by (rule get_data_return [rotated])
  have c: "get_at_cursor url params cursor w = (Inr (page_cursor kv, PDict kv), ?p1, ?w1)"
    using st b ok obj
    by (simp add: get_at_cursor_response [OF g] subscript_def extract_next_cursor_object)
  have m: "merge_page (Some key) (PDict kv) result = Inr (result @ xs)"
    using xs by (simp add: merge_page_def subscript_def iter_items_def)
  show ?thesis
    using b xs by (simp add: paginated_loop_step [OF c] m cursor_of_def items_of_def)
qed

lemma paginated_loop_pages:
  assumes "rs \<noteq> []" and "list_all (is_page key) rs"
    and "list_all (\<lambda>r. cursor_of r \<noteq> PNone) (butlast rs)" and "cursor_of (last rs) = PNone"
    and "pending w = rs @ rest"
  shows "fst (paginated_loop url params (Some key) cursor result page_count w)
           = Inr (result @ concat (map (items_of key) rs), page_count + length rs)
       \<and> pending (snd (snd (paginated_loop url params (Some key) cursor result page_count w)))
           = rest
       \<and> length (requests (snd (snd
            (paginated_loop url params (Some key) cursor result page_count w))))
           = length (requests w) + length rs
       \<and> sleeps (snd (snd (paginated_loop url params (Some key) cursor result page_count w)))
           = sleeps w"
  using assms
proof (induction rs arbitrary: params cursor result page_count w)
  case Nil
  then show ?case by simp
next
  case (Cons r rs)
  from Cons.prems have p: "pending w = r # (rs @ rest)" and pg: "is_page key r"
    by simp_all
  note step = paginated_loop_page [OF p pg, of url params cursor result page_count]
  show ?case
  proof (cases "rs = []")
    case True
    with Cons.prems have "cursor_of r = PNone" by simp
    with True show ?thesis by (simp add: step)
  next
    case False
    with Cons.prems have nc: "cursor_of r \<noteq> PNone" by simp
    let ?w1 = "w\<lparr>pending := rs @ rest,
                requests := requests w @ [(url, with_cursor params cursor, Some r)]\<rparr>"
    have ih: "fst (paginated_loop url (with_cursor params cursor) (Some key) (cursor_of r)
                 (result @ items_of key r) (page_count + 1) ?w1)
           = Inr ((result @ items_of key r) @ concat (map (items_of key) rs),
                  (page_count + 1) + length rs)
       \<and> pending (snd (snd (paginated_loop url (with_cursor params cursor) (Some key)
            (cursor_of r) (result @ items_of key r) (page_count + 1) ?w1)))
           = rest
       \<and> length (requests (snd (snd (paginated_loop url (with_cursor params cursor) (Some key)
            (cursor_of r) (result @ items_of key r) (page_count + 1) ?w1))))
           = length (requests ?w1) + length rs
       \<and> sleeps (snd (snd (paginated_loop url (with_cursor params cursor) (Some key)
            (cursor_of r) (result @ items_of key r) (page_count + 1) ?w1)))
           = sleeps ?w1"
      using False Cons.prems by (intro Cons.IH) simp_all
    show ?thesis
      using ih nc by (simp add: step)
  qed
qed

subsection \<open>Proof rules for the two loops\<close>

lemma get_data_loop_bad_header:
  "attempt < MAX_RETRIES \<Longrightarrow> pending w = r # rs \<Longrightarrow> status_code r = 429 \<Longrightarrow>
   retry_wait r = None \<Longrightarrow>
   \<exists>e. get_data_loop url params attempt w =
     (Inl e, w\<lparr>pending := rs, requests := requests w @ [(url, params, Some r)]\<rparr>)"
  by (subst get_data_loop.simps)
     (auto simp: raw_get_data_def retry_wait_def sleep_def split: if_splits option.splits)

lemma retry_wait_status: "retry_wait r = Some t \<Longrightarrow> status_code r = 429"
  by (simp add: retry_wait_def split: if_splits)

lemma get_data_loop_rule:
  assumes exhausted: "\<And>a w. MAX_RETRIES \<le> a \<Longrightarrow> Q a w (Inl (SystemExit 1), w)"
    and no_response: "\<And>a w. a < MAX_RETRIES \<Longrightarrow> pending w = [] \<Longrightarrow>
        Q a w (Inl ConnectionError, w\<lparr>requests := requests w @ [(url, params, None)]\<rparr>)"
    and return: "\<And>a w r rs. a < MAX_RETRIES \<Longrightarrow> pending w = r # rs \<Longrightarrow>
        status_code r \<noteq> 429 \<Longrightarrow>
        Q a w (Inr (r, a + 1),
               w\<lparr>pending := rs, requests := requests w @ [(url, params, Some r)]\<rparr>)"
    and bad_header: "\<And>a w r rs e. a < MAX_RETRIES \<Longrightarrow> pending w = r # rs \<Longrightarrow>
        status_code r = 429 \<Longrightarrow> retry_wait r = None \<Longrightarrow>
        Q a w (Inl e, w\<lparr>pending := rs, requests := requests w @ [(url, params, Some r)]\<rparr>)"
    and retry: "\<And>a w r rs t res. a < MAX_RETRIES \<Longrightarrow> pending w = r # rs \<Longrightarrow>
        retry_wait r = Some t \<Longrightarrow>
        Q (a + 1) (w\<lparr>pending := rs, requests := requests w @ [(url, params, Some r)],
                     sleeps := sleeps w @ [t]\<rparr>) res \<Longrightarrow>
        Q a w res"
  shows "Q attempt w (get_data_loop url params attempt w)"
proof (induction "MAX_RETRIES - attempt" arbitrary: attempt w)
  case 0
  then have "MAX_RETRIES \<le> attempt" by simp
  then show ?case by (simp add: get_data_loop_exhausted exhausted)
next
  case (Suc n)
  then have lt: "attempt < MAX_RETRIES" by simp
  show ?case
  proof (cases "pending w")
    case Nil
    with lt show ?thesis by (simp add: get_data_loop_no_response no_response)
  next
    case (Cons r rs)
    show ?thesis
    proof (cases "status_code r = 429")
      case False
      from return [OF lt Cons False] show ?thesis
        by (simp add: get_data_loop_return [OF lt Cons False])
    next
      case True
      show ?thesis
      proof (cases "retry_wait r")
        case None
        from get_data_loop_bad_header [OF lt Cons True None, of url params]
        obtain e where "get_data_loop url params attempt w =
          (Inl e, w\<lparr>pending := rs, requests := requests w @ [(url, params, Some r)]\<rparr>)" ..
        with bad_header [OF lt Cons True None] show ?thesis by simp
      next
        case (Some t)
        let ?w2 = "w\<lparr>pending := rs, requests := requests w @ [(url, params, Some r)],
                     sleeps := sleeps w @ [t]\<rparr>"
        from Suc.hyps(2) have "n = MAX_RETRIES - (attempt + 1)" by simp
        then have "Q (attempt + 1) ?w2 (get_data_loop url params (attempt + 1) ?w2)"
          by (rule Suc.hyps(1))
        then have "Q attempt w (get_data_loop url params (attempt + 1) ?w2)"
          by (rule retry [OF lt Cons Some])
        then show ?thesis
          by (simp add: get_data_loop_retry [OF lt Cons Some])
      qed
    qed
  qed
qed

lemma paginated_loop_rule:
  assumes failed: "\<And>params cursor result pc w e p1 w1.
        get_at_cursor url params cursor w = (Inl e, p1, w1) \<Longrightarrow>
        Q params cursor result pc w (Inl e, p1, w1)"
    and merge_failed: "\<And>params cursor result pc w nc d p1 w1 e.
        get_at_cursor url params cursor w = (Inr (nc, d), p1, w1) \<Longrightarrow>
        merge_page combine_key d result = Inl e \<Longrightarrow>
        Q params cursor result pc w (Inl e, p1, w1)"
    and last_page: "\<And>params cursor result pc w d p1 w1 result1.
        get_at_cursor url params cursor w = (Inr (PNone, d), p1, w1) \<Longrightarrow>
        merge_page combine_key d result = Inr result1 \<Longrightarrow>
        Q params cursor result pc w (Inr (result1, pc + 1), p1, w1)"
    and next_page: "\<And>params cursor result pc w nc d p1 w1 result1 res.
        get_at_cursor url params cursor w = (Inr (nc, d), p1, w1) \<Longrightarrow> nc \<noteq> PNone \<Longrightarrow>
        merge_page combine_key d result = Inr result1 \<Longrightarrow>
        Q p1 nc result1 (pc + 1) w1 res \<Longrightarrow>
        Q params cursor result pc w res"
  shows "Q params cursor result pc w
           (paginated_loop url params combine_key cursor result pc w)"
proof (induction "length (pending w)" arbitrary: params cursor result pc w rule: less_induct)
  case less
  obtain r p1 w1 where g: "get_at_cursor url params cursor w = (r, p1, w1)"
    by (cases "get_at_cursor url params cursor w") auto
  show ?case
  proof (cases r)
    case (Inl e)
    with g show ?thesis by (simp add: paginated_loop_failed failed)
  next
    case (Inr x)
    obtain nc d where x: "x = (nc, d)" by (cases x) auto
    note g' = g [unfolded Inr x]
    show ?thesis
    proof (cases "merge_page combine_key d result")
      case (Inl e)
      then show ?thesis
        by (simp add: paginated_loop_step [OF g'] merge_failed [OF g'])
    next
      case m: (Inr result1)
      show ?thesis
      proof (cases "nc = PNone")
        case True
        from last_page [OF g' [unfolded True] m] show ?thesis
          by (simp add: paginated_loop_step [OF g'] m True)
      next
        case False
        from get_at_cursor_pending [OF g']
        have "Q p1 nc result1 (pc + 1) w1
                (paginated_loop url p1 combine_key nc result1 (pc + 1) w1)"
          by (rule less.hyps)
        then have "Q params cursor result pc w
                (paginated_loop url p1 combine_key nc result1 (pc + 1) w1)"
          by (rule next_page [OF g' False m])
        then show ?thesis
          using False by (simp add: paginated_loop_step [OF g'] m)
      qed
    qed
  qed
qed

subsection \<open>The requests of a fetch\<close>

lemma other_params_with_cursor: "other_params (with_cursor params cursor) = other_params params"
  by (simp add: other_params_def with_cursor_def delete_update_same)

lemma same_request_other_params:
  "other_params p = other_params q \<Longrightarrow> same_request url p = same_request url q"
  by (rule ext) (simp add: same_request_def)

lemma get_data_loop_frame:
  "\<exists>new. requests (snd (get_data_loop url params attempt w)) = requests w @ new
         \<and> list_all (same_request url params) new"
proof (rule get_data_loop_rule [where Q = "\<lambda>a w res.
    \<exists>new. requests (snd res) = requests w @ new \<and> list_all (same_request url params) new"])
  fix a w r rs t and res :: "(py_error + response \<times> nat) \<times> world"
  assume "\<exists>new. requests (snd res) =
            requests (w\<lparr>pending := rs, requests := requests w @ [(url, params, Some r)],
                        sleeps := sleeps w @ [t]\<rparr>) @ new
          \<and> list_all (same_request url params) new"
  then obtain new where "requests (snd res) = requests w @ ((url, params, Some r) # new)"
    and "list_all (same_request url params) ((url, params, Some r) # new)"
    by (auto simp: same_request_def)
  then show "\<exists>new. requests (snd res) = requests w @ new
         \<and> list_all (same_request url params) new"
    by blast
qed (simp_all add: same_request_def)

lemma get_at_cursor_world:
  "snd (get_at_cursor url params cursor w)
     = (with_cursor params cursor,
        snd (get_data_loop url (with_cursor params cursor) 0 w))"
  by (simp add: get_at_cursor_def get_data_def with_cursor_def Let_def
      split: prod.splits sum.splits option.splits)

lemma get_at_cursor_frame:
  assumes "get_at_cursor url params cursor w = (res, p1, w1)"
  shows "p1 = with_cursor params cursor
       \<and> (\<exists>new. requests w1 = requests w @ new \<and> list_all (same_request url params) new)"
proof -
  from assms get_at_cursor_world [of url params cursor w]
  have p1: "p1 = with_cursor params cursor"
    and w1: "w1 = snd (get_data_loop url (with_cursor params cursor) 0 w)"
    by simp_all
  from get_data_loop_frame [of url "with_cursor params cursor" 0 w] w1
  obtain new where "requests w1 = requests w @ new"
    and "list_all (same_request url (with_cursor params cursor)) new"
    by auto
  then show ?thesis
    using p1 same_request_other_params [OF other_params_with_cursor, of url params cursor]
    by auto
qed

lemma paginated_loop_frame:
  "\<exists>new. requests (snd (snd (paginated_loop url params combine_key cursor result pc w)))
           = requests w @ new
         \<and> list_all (same_request url params) new
         \<and> other_params (fst (snd (paginated_loop url params combine_key cursor result pc w)))
           = other_params params"
proof (rule paginated_loop_rule [where Q = "\<lambda>params cursor result pc w res.
    \<exists>new. requests (snd (snd res)) = requests w @ new
         \<and> list_all (same_request url params) new
         \<and> other_params (fst (snd res)) = other_params params"])
  fix params cursor w nc d p1 w1
    and res :: "(py_error + pyval list \<times> nat) \<times> pydict \<times> world"
  assume g: "get_at_cursor url params cursor w = (Inr (nc, d), p1, w1)"
    and ih: "\<exists>new. requests (snd (snd res)) = requests w1 @ new
         \<and> list_all (same_request url p1) new
         \<and> other_params (fst (snd res)) = other_params p1"
  from get_at_cursor_frame [OF g] obtain new1 where
    p1: "p1 = with_cursor params cursor" and n1: "requests w1 = requests w @ new1"
    and l1: "list_all (same_request url params) new1"
    by auto
  from p1 have o: "other_params p1 = other_params params"
    by (simp add: other_params_with_cursor)
  from ih obtain new2 where n2: "requests (snd (snd res)) = requests w1 @ new2"
    and l2: "list_all (same_request url p1) new2"
    and o2: "other_params (fst (snd res)) = other_params p1"
    by auto
  from l2 same_request_other_params [OF o, of url]
  have "list_all (same_request url params) new2"
    by simp
  with n1 n2 l1 o o2
  have "requests (snd (snd res)) = requests w @ (new1 @ new2)
      \<and> list_all (same_request url params) (new1 @ new2)
      \<and> other_params (fst (snd res)) = other_params params"
    by simp
  then show "\<exists>new. requests (snd (snd res)) = requests w @ new
         \<and> list_all (same_request url params) new
         \<and> other_params (fst (snd res)) = other_params params"
    by blast
qed (auto dest!: get_at_cursor_frame simp: other_params_with_cursor)

lemma paginated_get_world:
  "snd (paginated_get url params combine_key w)
     = snd (paginated_loop url params combine_key PNone [] 0 w)"
  by (simp add: paginated_get_def split: prod.splits sum.splits)

lemma expected_after_snoc:
  "expected_after c (es @ [(url, p, ro)]) = next_expected (expected_after c es) ro"
  by (induction c es rule: expected_after.induct) simp_all

lemma cursor_chain_snoc:
  "cursor_chain c (es @ [(url, p, ro)])
     \<longleftrightarrow> cursor_chain c es \<and> map_of p ''cursor'' = expected_after c es"
  by (induction c es rule: cursor_chain.induct) auto

lemma get_data_loop_chain:
  "\<forall>new. requests w = q @ new \<longrightarrow> cursor_chain c0 new \<longrightarrow>
         expected_after c0 new = map_of params ''cursor'' \<longrightarrow>
     (\<exists>new'. requests (snd (get_data_loop url params attempt w)) = q @ new'
            \<and> cursor_chain c0 new'
            \<and> (\<forall>r n. fst (get_data_loop url params attempt w) = Inr (r, n) \<longrightarrow>
                  expected_after c0 new' = Some (cursor_of r)))"
proof (rule get_data_loop_rule [where Q = "\<lambda>a w res.
    \<forall>new. requests w = q @ new \<longrightarrow> cursor_chain c0 new \<longrightarrow>
         expected_after c0 new = map_of params ''cursor'' \<longrightarrow>
     (\<exists>new'. requests (snd res) = q @ new' \<and> cursor_chain c0 new'
            \<and> (\<forall>r n. fst res = Inr (r, n) \<longrightarrow> expected_after c0 new' = Some (cursor_of r)))"])
  fix a :: nat and w :: world
  show "\<forall>new. requests w = q @ new \<longrightarrow> cursor_chain c0 new \<longrightarrow>
         expected_after c0 new = map_of params ''cursor'' \<longrightarrow>
     (\<exists>new'. requests (snd (Inl (SystemExit 1) :: py_error + response \<times> nat, w)) = q @ new'
            \<and> cursor_chain c0 new'
            \<and> (\<forall>r n. fst (Inl (SystemExit 1) :: py_error + response \<times> nat, w) = Inr (r, n) \<longrightarrow>
                  expected_after c0 new' = Some (cursor_of r)))"
    by auto
next
  fix a :: nat and w :: world
  let ?res = "(Inl ConnectionError :: py_error + response \<times> nat,
               w\<lparr>requests := requests w @ [(url, params, None)]\<rparr>)"
  show "\<forall>new. requests w = q @ new \<longrightarrow> cursor_chain c0 new \<longrightarrow>
         expected_after c0 new = map_of params ''cursor'' \<longrightarrow>
     (\<exists>new'. requests (snd ?res) = q @ new' \<and> cursor_chain c0 new'
            \<and> (\<forall>r n. fst ?res = Inr (r, n) \<longrightarrow> expected_after c0 new' = Some (cursor_of r)))"
  proof (intro allI impI)
    fix new
    assume "requests w = q @ new" "cursor_chain c0 new"
      "expected_after c0 new = map_of params ''cursor''"
    then have "requests (snd ?res) = q @ (new @ [(url, params, None)])
        \<and> cursor_chain c0 (new @ [(url, params, None)])"
      by (simp add: cursor_chain_snoc)
    then show "\<exists>new'. requests (snd ?res) = q @ new' \<and> cursor_chain c0 new'
            \<and> (\<forall>r n. fst ?res = Inr (r, n) \<longrightarrow> expected_after c0 new' = Some (cursor_of r))"
      by (intro exI [of _ "new @ [(url, params, None)]"]) simp
  qed
next
  fix a :: nat and w :: world and r :: response and rs :: "response list"
  assume st: "status_code r \<noteq> 429"
  let ?res = "(Inr (r, a + 1) :: py_error + response \<times> nat,
               w\<lparr>pending := rs, requests := requests w @ [(url, params, Some r)]\<rparr>)"
  show "\<forall>new. requests w = q @ new \<longrightarrow> cursor_chain c0 new \<longrightarrow>
         expected_after c0 new = map_of params ''cursor'' \<longrightarrow>
     (\<exists>new'. requests (snd ?res) = q @ new' \<and> cursor_chain c0 new'
            \<and> (\<forall>r n. fst ?res = Inr (r, n) \<longrightarrow> expected_after c0 new' = Some (cursor_of r)))"
  proof (intro allI impI)
    fix new
    assume "requests w = q @ new" "cursor_chain c0 new"
      "expected_after c0 new = map_of params ''cursor''"
    with st have "requests (snd ?res) = q @ (new @ [(url, params, Some r)])
        \<and> cursor_chain c0 (new @ [(url, params, Some r)])
        \<and> expected_after c0 (new @ [(url, params, Some r)]) = Some (cursor_of r)"
      by (simp add: cursor_chain_snoc expected_after_snoc next_expected_def)
    then show "\<exists>new'. requests (snd ?res) = q @ new' \<and> cursor_chain c0 new'
            \<and> (\<forall>r n. fst ?res = Inr (r, n) \<longrightarrow> expected_after c0 new' = Some (cursor_of r))"
      by (intro exI [of _ "new @ [(url, params, Some r)]"]) simp
  qed
next
  fix a :: nat and w :: world and r :: response and rs :: "response list" and e :: py_error
  let ?res = "(Inl e :: py_error + response \<times> nat,
               w\<lparr>pending := rs, requests := requests w @ [(url, params, Some r)]\<rparr>)"
  show "\<forall>new. requests w = q @ new \<longrightarrow> cursor_chain c0 new \<longrightarrow>
         expected_after c0 new = map_of params ''cursor'' \<longrightarrow>
     (\<exists>new'. requests (snd ?res) = q @ new' \<and> cursor_chain c0 new'
            \<and> (\<forall>r n. fst ?res = Inr (r, n) \<longrightarrow> expected_after c0 new' = Some (cursor_of r)))"
  proof (intro allI impI)
    fix new
    assume "requests w = q @ new" "cursor_chain c0 new"
      "expected_after c0 new = map_of params ''cursor''"
    then have "requests (snd ?res) = q @ (new @ [(url, params, Some r)])
        \<and> cursor_chain c0 (new @ [(url, params, Some r)])"
      by (simp add: cursor_chain_snoc)
    then show "\<exists>new'. requests (snd ?res) = q @ new' \<and> cursor_chain c0 new'
            \<and> (\<forall>r n. fst ?res = Inr (r, n) \<longrightarrow> expected_after c0 new' = Some (cursor_of r))"
      by (intro exI [of _ "new @ [(url, params, Some r)]"]) simp
  qed
next
  fix a :: nat and w :: world and r :: response and rs :: "response list" and t :: int
    and res :: "(py_error + response \<times> nat) \<times> world"
  let ?w2 = "w\<lparr>pending := rs, requests := requests w @ [(url, params, Some r)],
                sleeps := sleeps w @ [t]\<rparr>"
  assume rw: "retry_wait r = Some t"
    and ih: "\<forall>new. requests ?w2 = q @ new \<longrightarrow> cursor_chain c0 new \<longrightarrow>
         expected_after c0 new = map_of params ''cursor'' \<longrightarrow>
     (\<exists>new'. requests (snd res) = q @ new' \<and> cursor_chain c0 new'
            \<and> (\<forall>r n. fst res = Inr (r, n) \<longrightarrow> expected_after c0 new' = Some (cursor_of r)))"
  show "\<forall>new. requests w = q @ new \<longrightarrow> cursor_chain c0 new \<longrightarrow>
         expected_after c0 new = map_of params ''cursor'' \<longrightarrow>
     (\<exists>new'. requests (snd res) = q @ new' \<and> cursor_chain c0 new'
            \<and> (\<forall>r n. fst res = Inr (r, n) \<longrightarrow> expected_after c0 new' = Some (cursor_of r)))"
  proof (intro allI impI)
    fix new
    assume a: "requests w = q @ new" "cursor_chain c0 new"
      "expected_after c0 new = map_of params ''cursor''"
    from rw have "status_code r = 429" by (rule retry_wait_status)
    with a have "requests ?w2 = q @ (new @ [(url, params, Some r)])"
      and "cursor_chain c0 (new @ [(url, params, Some r)])"
      and "expected_after c0 (new @ [(url, params, Some r)]) = map_of params ''cursor''"
      by (simp_all add: cursor_chain_snoc expected_after_snoc next_expected_def)
    with ih show "\<exists>new'. requests (snd res) = q @ new' \<and> cursor_chain c0 new'
            \<and> (\<forall>r n. fst res = Inr (r, n) \<longrightarrow> expected_after c0 new' = Some (cursor_of r))"
      by blast
  qed
qed

lemma extract_next_cursor_object_only:
  "extract_next_cursor (PDict kv) = Inr nc \<Longrightarrow> nc = page_cursor kv"
  by (cases "map_of kv ''response_metadata''")
     (auto simp: extract_next_cursor_def contains_def subscript_def page_cursor_def
        split: pyval.splits option.splits if_splits bool.splits sum.splits)

lemma get_at_cursor_returned:
  assumes "get_at_cursor url params cursor w = (Inr (nc, d), p1, w1)"
  shows "\<exists>r n. get_data_loop url (with_cursor params cursor) 0 w = (Inr (r, n), w1)
              \<and> nc = cursor_of r"
proof -
  obtain res w' where l: "get_data_loop url (with_cursor params cursor) 0 w = (res, w')"
    by (cases "get_data_loop url (with_cursor params cursor) 0 w") auto
  from assms get_at_cursor_world [of url params cursor w] l have w': "w' = w1"
    by simp
  show ?thesis
  proof (cases res)
    case (Inl e)
    with l have "get_data url (with_cursor params cursor) w = (Inl e, w')"
      by (simp add: get_data_def)
    from get_at_cursor_failed [OF this] assms show ?thesis by simp
  next
    case (Inr x)
    obtain r n where x: "x = (r, n)" by (cases x) auto
    with l Inr have g: "get_data url (with_cursor params cursor) w = (Inr r, w')"
      by (simp add: get_data_def)
    from assms have e: "(if status_code r \<noteq> 200 then Inl (SystemExit 1)
       else (case body r of
           None \<Rightarrow> Inl JSONDecodeError
         | Some d \<Rightarrow>
             (case subscript d ''ok'' of
                Inl e \<Rightarrow> Inl e
              | Inr ok \<Rightarrow>
                  if ok = PBool False then Inl (SystemExit 1)
                  else
                    (case extract_next_cursor d of
                       Inl e \<Rightarrow> Inl e
                     | Inr next_cursor \<Rightarrow> Inr (next_cursor, d))))) = Inr (nc, d)"
      by (simp add: get_at_cursor_response [OF g])
    then have b: "body r = Some d"
      by (auto split: if_splits option.splits sum.splits)
    with e obtain ok where "subscript d ''ok'' = Inr ok" and ex: "extract_next_cursor d = Inr nc"
      by (auto split: if_splits option.splits sum.splits)
    then obtain kv where d: "d = PDict kv"
      by (cases d) (simp_all add: subscript_def)
    from ex d have "nc = page_cursor kv"
      by (simp add: extract_next_cursor_object_only)
    with b d have "nc = cursor_of r"
      by (simp add: cursor_of_def)
    with l Inr x w' show ?thesis by simp
  qed
qed

lemma get_at_cursor_chain:
  assumes "get_at_cursor url params cursor w = (res, p1, w1)"
    and "requests w = q @ new" and "cursor_chain c0 new"
    and "expected_after c0 new = map_of (with_cursor params cursor) ''cursor''"
  shows "\<exists>new'. requests w1 = q @ new' \<and> cursor_chain c0 new'
            \<and> (\<forall>nc d. res = Inr (nc, d) \<longrightarrow> expected_after c0 new' = Some nc)"
proof -
  from assms(1) get_at_cursor_world [of url params cursor w]
  have w1: "w1 = snd (get_data_loop url (with_cursor params cursor) 0 w)"
    by simp
  from get_data_loop_chain [of w q c0 "with_cursor params cursor" url 0] assms(2-4) w1
  obtain new' where n: "requests w1 = q @ new'" and c: "cursor_chain c0 new'"
    and e: "\<forall>r n. fst (get_data_loop url (with_cursor params cursor) 0 w) = Inr (r, n) \<longrightarrow>
                  expected_after c0 new' = Some (cursor_of r)"
    by blast
  have "expected_after c0 new' = Some nc" if "res = Inr (nc, d)" for nc d
  proof -
    from get_at_cursor_returned [OF assms(1) [unfolded that]] obtain r n where
      "get_data_loop url (with_cursor params cursor) 0 w = (Inr (r, n), w1)"
      and "nc = cursor_of r"
      by blast
    with e show ?thesis by simp
  qed
  with n c show ?thesis by blast
qed

lemma map_of_with_cursor:
  "cursor \<noteq> PNone \<Longrightarrow> map_of (with_cursor params cursor) ''cursor'' = Some cursor"
  by (simp add: with_cursor_def update_conv')

lemma paginated_loop_chain:
  "\<forall>new. requests w = q @ new \<longrightarrow> cursor_chain c0 new \<longrightarrow>
         expected_after c0 new = map_of (with_cursor params cursor) ''cursor'' \<longrightarrow>
     (\<exists>new'. requests (snd (snd (paginated_loop url params combine_key cursor result pc w)))
               = q @ new'
            \<and> cursor_chain c0 new')"
proof (rule paginated_loop_rule [where Q = "\<lambda>params cursor result pc w res.
    \<forall>new. requests w = q @ new \<longrightarrow> cursor_chain c0 new \<longrightarrow>
         expected_after c0 new = map_of (with_cursor params cursor) ''cursor'' \<longrightarrow>
     (\<exists>new'. requests (snd (snd res)) = q @ new' \<and> cursor_chain c0 new')"])
  fix params :: pydict and cursor nc d :: pyval and w w1 :: world and p1 :: pydict
    and res :: "(py_error + pyval list \<times> nat) \<times> pydict \<times> world"
  assume g: "get_at_cursor url params cursor w = (Inr (nc, d), p1, w1)"
    and nc: "nc \<noteq> PNone"
    and ih: "\<forall>new. requests w1 = q @ new \<longrightarrow> cursor_chain c0 new \<longrightarrow>
         expected_after c0 new = map_of (with_cursor p1 nc) ''cursor'' \<longrightarrow>
     (\<exists>new'. requests (snd (snd res)) = q @ new' \<and> cursor_chain c0 new')"
  show "\<forall>new. requests w = q @ new \<longrightarrow> cursor_chain c0 new \<longrightarrow>
         expected_after c0 new = map_of (with_cursor params cursor) ''cursor'' \<longrightarrow>
     (\<exists>new'. requests (snd (snd res)) = q @ new' \<and> cursor_chain c0 new')"
  proof (intro allI impI)
    fix new
    assume "requests w = q @ new" "cursor_chain c0 new"
      "expected_after c0 new = map_of (with_cursor params cursor) ''cursor''"
    from get_at_cursor_chain [OF g this] obtain new1 where
      "requests w1 = q @ new1" "cursor_chain c0 new1" "expected_after c0 new1 = Some nc"
      by blast
    with ih nc show "\<exists>new'. requests (snd (snd res)) = q @ new' \<and> cursor_chain c0 new'"
      by (simp add: map_of_with_cursor)
  qed
qed (intro allI impI, drule (3) get_at_cursor_chain, fastforce)+

lemma is_page_fixtures: "is_page ''messages'' page_one" "is_page ''messages'' page_two"
  by (simp_all add: is_page_def page_one_def page_two_def json_response_def
      metadata_is_object_def)

lemma cursor_of_fixtures: "cursor_of page_one = PStr ''c2''" "cursor_of page_two = PNone"
  by (simp_all add: cursor_of_def page_one_def page_two_def json_response_def page_cursor_def
      str_is_blank_def strip_def is_space_def)

lemma items_of_fixtures:
  "items_of ''messages'' page_one = [PInt 1, PInt 2]" "items_of ''messages'' page_two = [PInt 3]"
  by (simp_all add: items_of_def page_one_def page_two_def json_response_def)

lemma status_fixtures: "status_code page_one = 200" "status_code page_two = 200"
  by (simp_all add: page_one_def page_two_def json_response_def)

lemma two_pages_run:
  "paginated_get ''u'' [(''channel'', PStr ''C1'')] (Some ''messages'')
     (fresh_world [page_one, page_two])
   = (Inr [PInt 1, PInt 2, PInt 3],
      [(''channel'', PStr ''C1''), (''cursor'', PStr ''c2'')],
      \<lparr>pending = [],
       requests = [(''u'', [(''channel'', PStr ''C1'')], Some page_one),
                   (''u'', [(''channel'', PStr ''C1''), (''cursor'', PStr ''c2'')],
                    Some page_two)],
       sleeps = []\<rparr>)"
  by (simp add: paginated_get_def fresh_world_def
      paginated_loop_page [where r = page_one and rs = "[page_two]"]
      paginated_loop_page [where r = page_two and rs = "[]"]
      is_page_fixtures cursor_of_fixtures items_of_fixtures with_cursor_def)

subsection \<open>Exhaustion inside a fetch, and the dictionary of each request\<close>

lemma rate_limit_signal_retry_wait: "rate_limit_signal r \<Longrightarrow> retry_wait r \<noteq> None"
  by (simp add: rate_limit_signal_def split: option.splits)

lemma paginated_loop_exhausted:
  assumes "\<forall>r\<in>set rs. retry_wait r \<noteq> None" and "length rs = MAX_RETRIES"
    and "pending w = rs @ rest"
  shows "paginated_loop url params combine_key cursor result page_count w =
     (Inl (SystemExit 1), with_cursor params cursor,
      w\<lparr>pending := rest,
         requests := requests w @ map (\<lambda>r. (url, with_cursor params cursor, Some r)) rs,
         sleeps := sleeps w @ map (the \<circ> retry_wait) rs\<rparr>)"
proof -
  have "get_data_loop url (with_cursor params cursor) 0 w =
     (Inl (SystemExit 1),
      w\<lparr>pending := rest,
         requests := requests w @ map (\<lambda>r. (url, with_cursor params cursor, Some r)) rs,
         sleeps := sleeps w @ map (the \<circ> retry_wait) rs\<rparr>)"
    using assms by (intro get_data_loop_all_limited) simp_all
  then have "get_data url (with_cursor params cursor) w =
     (Inl (SystemExit 1),
      w\<lparr>pending := rest,
         requests := requests w @ map (\<lambda>r. (url, with_cursor params cursor, Some r)) rs,
         sleeps := sleeps w @ map (the \<circ> retry_wait) rs\<rparr>)"
    by (simp add: get_data_def)
  from paginated_loop_failed [OF get_at_cursor_failed [OF this]] show ?thesis .
qed

lemma paginated_loop_through_pages:
  assumes "list_all (is_page key) ps" and "list_all (\<lambda>r. cursor_of r \<noteq> PNone) ps"
    and "pending w = ps @ rest"
  shows "\<exists>params1 cursor1 w1.
           paginated_loop url params (Some key) cursor result page_count w
             = paginated_loop url params1 (Some key) cursor1
                 (result @ concat (map (items_of key) ps)) (page_count + length ps) w1
         \<and> pending w1 = rest
         \<and> length (requests w1) = length (requests w) + length ps
         \<and> sleeps w1 = sleeps w"
  using assms
proof (induction ps arbitrary: params cursor result page_count w)
  case Nil
  then show ?case by auto
next
  case (Cons r ps)
  from Cons.prems have p: "pending w = r # (ps @ rest)" and pg: "is_page key r"
    and nc: "cursor_of r \<noteq> PNone"
    by simp_all
  let ?p1 = "with_cursor params cursor"
  let ?w1 = "w\<lparr>pending := ps @ rest, requests := requests w @ [(url, ?p1, Some r)]\<rparr>"
  have step: "paginated_loop url params (Some key) cursor result page_count w
     = paginated_loop url ?p1 (Some key) (cursor_of r) (result @ items_of key r)
         (page_count + 1) ?w1"
    using nc by (simp add: paginated_loop_page [OF p pg])
  from Cons.prems have "list_all (is_page key) ps" "list_all (\<lambda>r. cursor_of r \<noteq> PNone) ps"
    "pending ?w1 = ps @ rest"
    by simp_all
  from Cons.IH [OF this, of ?p1 "cursor_of r" "result @ items_of key r" "page_count + 1"]
  obtain params1 cursor1 w1 where
    "paginated_loop url ?p1 (Some key) (cursor_of r) (result @ items_of key r)
         (page_count + 1) ?w1
       = paginated_loop url params1 (Some key) cursor1
           ((result @ items_of key r) @ concat (map (items_of key) ps))
           (page_count + 1 + length ps) w1"
    and "pending w1 = rest" and "length (requests w1) = length (requests ?w1) + length ps"
    and "sleeps w1 = sleeps ?w1"
    by blast
  with step have "paginated_loop url params (Some key) cursor result page_count w
             = paginated_loop url params1 (Some key) cursor1
                 (result @ concat (map (items_of key) (r # ps)))
                 (page_count + length (r # ps)) w1
         \<and> pending w1 = rest
         \<and> length (requests w1) = length (requests w) + length (r # ps)
         \<and> sleeps w1 = sleeps w"
    by simp
  then show ?case by blast
qed

lemma rate_limit_signal_1: "rate_limit_signal (rate_limited ''1'')"
  by (simp add: rate_limit_signal_def retry_wait_rate_limited_1 ONE_YEAR_def)

lemma sent_with_own: "sent_with url p (url, p, ro)"
  by (simp add: sent_with_def update_triv split: option.splits)

lemma sent_with_with_cursor:
  "sent_with url (with_cursor params cursor) e \<Longrightarrow> sent_with url params e"
  by (cases e)
     (auto simp: sent_with_def with_cursor_def update_conv' split: option.splits if_splits)

lemma get_data_loop_sent:
  "\<exists>new. requests (snd (get_data_loop url params attempt w)) = requests w @ new
         \<and> list_all (\<lambda>e. e = (url, params, snd (snd e))) new
         \<and> (attempt < MAX_RETRIES \<longrightarrow> new \<noteq> [])"
proof (rule get_data_loop_rule [where Q = "\<lambda>a w res.
    \<exists>new. requests (snd res) = requests w @ new
         \<and> list_all (\<lambda>e. e = (url, params, snd (snd e))) new
         \<and> (a < MAX_RETRIES \<longrightarrow> new \<noteq> [])"])
  fix a :: nat and w :: world and r :: response and rs :: "response list" and t :: int
    and res :: "(py_error + response \<times> nat) \<times> world"
  assume "\<exists>new. requests (snd res) =
            requests (w\<lparr>pending := rs, requests := requests w @ [(url, params, Some r)],
                        sleeps := sleeps w @ [t]\<rparr>) @ new
          \<and> list_all (\<lambda>e. e = (url, params, snd (snd e))) new
          \<and> (a + 1 < MAX_RETRIES \<longrightarrow> new \<noteq> [])"
  then obtain new where "requests (snd res) = requests w @ ((url, params, Some r) # new)"
    and "list_all (\<lambda>e. e = (url, params, snd (snd e))) ((url, params, Some r) # new)"
    by auto
  then show "\<exists>new. requests (snd res) = requests w @ new
         \<and> list_all (\<lambda>e. e = (url, params, snd (snd e))) new
         \<and> (a < MAX_RETRIES \<longrightarrow> new \<noteq> [])"
    by blast
qed simp_all

lemma get_at_cursor_sent:
  assumes "get_at_cursor url params cursor w = (res, p1, w1)"
  shows "p1 = with_cursor params cursor
       \<and> (\<exists>new. requests w1 = requests w @ new \<and> new \<noteq> []
            \<and> list_all (\<lambda>e. e = (url, p1, snd (snd e))) new)"
proof -
  from assms get_at_cursor_world [of url params cursor w]
  have p1: "p1 = with_cursor params cursor"
    and w1: "w1 = snd (get_data_loop url (with_cursor params cursor) 0 w)"
    by simp_all
  from get_data_loop_sent [of url "with_cursor params cursor" 0 w] w1 p1
  show ?thesis
    by (auto simp: MAX_RETRIES_def)
qed

lemma list_all_sent_with:
  "list_all (\<lambda>e. e = (url, p, snd (snd e))) new \<Longrightarrow> list_all (sent_with url p) new"
  unfolding list_all_iff by (metis sent_with_own)

lemma paginated_loop_sent:
  "\<exists>new. requests (snd (snd (paginated_loop url params combine_key cursor result pc w)))
           = requests w @ new
         \<and> new \<noteq> []
         \<and> list_all (sent_with url (with_cursor params cursor)) new
         \<and> fst (snd (paginated_loop url params combine_key cursor result pc w))
           = fst (snd (last new))"
proof (rule paginated_loop_rule [where Q = "\<lambda>params cursor result pc w res.
    \<exists>new. requests (snd (snd res)) = requests w @ new \<and> new \<noteq> []
         \<and> list_all (sent_with url (with_cursor params cursor)) new
         \<and> fst (snd res) = fst (snd (last new))"])
  fix params :: pydict and cursor nc d :: pyval and w w1 :: world and p1 :: pydict
    and res :: "(py_error + pyval list \<times> nat) \<times> pydict \<times> world"
  assume g: "get_at_cursor url params cursor w = (Inr (nc, d), p1, w1)"
    and ih: "\<exists>new. requests (snd (snd res)) = requests w1 @ new \<and> new \<noteq> []
         \<and> list_all (sent_with url (with_cursor p1 nc)) new
         \<and> fst (snd res) = fst (snd (last new))"
  from get_at_cursor_sent [OF g] obtain new1 where
    p1: "p1 = with_cursor params cursor" and n1: "requests w1 = requests w @ new1"
    and l1: "list_all (\<lambda>e. e = (url, p1, snd (snd e))) new1"
    by auto
  from ih obtain new2 where n2: "requests (snd (snd res)) = requests w1 @ new2"
    and ne: "new2 \<noteq> []"
    and l2: "list_all (sent_with url (with_cursor p1 nc)) new2"
    and la: "fst (snd res) = fst (snd (last new2))"
    by auto
  from l1 have "list_all (sent_with url p1) new1"
    by (rule list_all_sent_with)
  moreover from l2 have "list_all (sent_with url p1) new2"
    by (auto simp: list_all_iff dest: sent_with_with_cursor)
  ultimately have "requests (snd (snd res)) = requests w @ (new1 @ new2)
      \<and> new1 @ new2 \<noteq> []
      \<and> list_all (sent_with url (with_cursor params cursor)) (new1 @ new2)
      \<and> fst (snd res) = fst (snd (last (new1 @ new2)))"
    using n1 n2 ne la p1 by simp
  then show "\<exists>new. requests (snd (snd res)) = requests w @ new \<and> new \<noteq> []
         \<and> list_all (sent_with url (with_cursor params cursor)) new
         \<and> fst (snd res) = fst (snd (last new))"
    by blast
next
  fix params :: pydict and cursor :: pyval and result :: "pyval list" and pc :: nat
    and w w1 :: world and e :: py_error and p1 :: pydict
  assume g: "get_at_cursor url params cursor w = (Inl e, p1, w1)"
  from get_at_cursor_sent [OF g] obtain new1 where
    p1: "p1 = with_cursor params cursor" and n1: "requests w1 = requests w @ new1"
    and ne: "new1 \<noteq> []"
    and l1: "list_all (\<lambda>e. e = (url, p1, snd (snd e))) new1"
    by auto
  from l1 ne have "last new1 = (url, p1, snd (snd (last new1)))"
    by (simp add: list_all_iff)
  then have "fst (snd (last new1)) = p1"
    by (metis fst_conv snd_conv)
  with n1 ne list_all_sent_with [OF l1] p1
  show "\<exists>new. requests (snd (snd (Inl e :: py_error + pyval list \<times> nat, p1, w1)))
           = requests w @ new \<and> new \<noteq> []
         \<and> list_all (sent_with url (with_cursor params cursor)) new
         \<and> fst (snd (Inl e :: py_error + pyval list \<times> nat, p1, w1)) = fst (snd (last new))"
    by auto
next
  fix params :: pydict and cursor nc d :: pyval and result :: "pyval list" and pc :: nat
    and w w1 :: world and e :: py_error and p1 :: pydict
  assume g: "get_at_cursor url params cursor w = (Inr (nc, d), p1, w1)"
  from get_at_cursor_sent [OF g] obtain new1 where
    p1: "p1 = with_cursor params cursor" and n1: "requests w1 = requests w @ new1"
    and ne: "new1 \<noteq> []"
    and l1: "list_all (\<lambda>e. e = (url, p1, snd (snd e))) new1"
    by auto
  from l1 ne have "last new1 = (url, p1, snd (snd (last new1)))"
    by (simp add: list_all_iff)
  then have "fst (snd (last new1)) = p1"
    by (metis fst_conv snd_conv)
  with n1 ne list_all_sent_with [OF l1] p1
  show "\<exists>new. requests (snd (snd (Inl e :: py_error + pyval list \<times> nat, p1, w1)))
           = requests w @ new \<and> new \<noteq> []
         \<and> list_all (sent_with url (with_cursor params cursor)) new
         \<and> fst (snd (Inl e :: py_error + pyval list \<times> nat, p1, w1)) = fst (snd (last new))"
    by auto
next
  fix params :: pydict and cursor d :: pyval and result result1 :: "pyval list" and pc :: nat
    and w w1 :: world and p1 :: pydict
  assume g: "get_at_cursor url params cursor w = (Inr (PNone, d), p1, w1)"
  from get_at_cursor_sent [OF g] obtain new1 where
    p1: "p1 = with_cursor params cursor" and n1: "requests w1 = requests w @ new1"
    and ne: "new1 \<noteq> []"
    and l1: "list_all (\<lambda>e. e = (url, p1, snd (snd e))) new1"
    by auto
  from l1 ne have "last new1 = (url, p1, snd (snd (last new1)))"
    by (simp add: list_all_iff)
  then have "fst (snd (last new1)) = p1"
    by (metis fst_conv snd_conv)
  with n1 ne list_all_sent_with [OF l1] p1
  show "\<exists>new. requests (snd (snd
             (Inr (result1, pc + 1) :: py_error + pyval list \<times> nat, p1, w1)))
           = requests w @ new \<and> new \<noteq> []
         \<and> list_all (sent_with url (with_cursor params cursor)) new
         \<and> fst (snd (Inr (result1, pc + 1) :: py_error + pyval list \<times> nat, p1, w1))
           = fst (snd (last new))"
    by auto
qed

section \<open>The retry layer\<close>

text \<open>
  Claim C1, as the code has it. When the server answers 429 with \<^verbatim>\<open>Retry-After: 3\<close>,
  then 429 with \<^verbatim>\<open>Retry-After: 1\<close>, then any response \<open>r\<close> that is not a 429,
  \<^verbatim>\<open>get_data\<close> returns \<open>r\<close> after exactly three requests with the same parameters and
  exactly two sleeps, of 5 and of 3 seconds. The counter \<^verbatim>\<open>attempt\<close> starts at 0 and is
  incremented after every request, the answered one included, so it is 3 at the return.
\<close>

theorem get_data_rate_limit_recovery:
  assumes "status_code r \<noteq> 429"
  shows "get_data_loop url params 0
           \<lparr>pending = rate_limited ''3'' # rate_limited ''1'' # r # rest,
            requests = q, sleeps = s\<rparr>
         = (Inr (r, 3),
            \<lparr>pending = rest,
             requests = q @ [(url, params, Some (rate_limited ''3'')),
                             (url, params, Some (rate_limited ''1'')),
                             (url, params, Some r)],
             sleeps = s @ [5, 3]\<rparr>)
       \<and> fst (get_data url params
           \<lparr>pending = rate_limited ''3'' # rate_limited ''1'' # r # rest,
            requests = q, sleeps = s\<rparr>) = Inr r"
proof -
  have loop: "get_data_loop url params 0
           \<lparr>pending = rate_limited ''3'' # rate_limited ''1'' # r # rest,
            requests = q, sleeps = s\<rparr>
         = (Inr (r, 3),
            \<lparr>pending = rest,
             requests = q @ [(url, params, Some (rate_limited ''3'')),
                             (url, params, Some (rate_limited ''1'')),
                             (url, params, Some r)],
             sleeps = s @ [5, 3]\<rparr>)"
    by (simp add: get_data_loop_retry [where t = 5] get_data_loop_retry [where t = 3]
        retry_wait_rate_limited_3 retry_wait_rate_limited_1
        get_data_loop_return assms MAX_RETRIES_def)
  then show ?thesis by (simp add: get_data_def)
qed

theorem get_data_rate_limit_recovery_witness:
  "status_code (json_response 200 (PDict [(''ok'', PBool True)])) \<noteq> 429
   \<and> get_data_loop ''u'' [] 0
       (fresh_world [rate_limited ''3'', rate_limited ''1'',
                     json_response 200 (PDict [(''ok'', PBool True)])])
     = (Inr (json_response 200 (PDict [(''ok'', PBool True)]), 3),
        \<lparr>pending = [],
         requests = [(''u'', [], Some (rate_limited ''3'')),
                     (''u'', [], Some (rate_limited ''1'')),
                     (''u'', [], Some (json_response 200 (PDict [(''ok'', PBool True)])))],
         sleeps = [5, 3]\<rparr>)"
proof -
  have h: "status_code (json_response 200 (PDict [(''ok'', PBool True)])) \<noteq> 429"
    by (simp add: json_response_def)
  show ?thesis
    using h get_data_rate_limit_recovery [OF h, of "''u''" "[]" "[]" "[]" "[]"]
    by (simp add: fresh_world_def)
qed

text \<open>
  The counter does not end at 2 in the scenario of claim C1: it is 3 when the success
  response is returned.
\<close>

theorem get_data_attempt_counter_counterexample:
  "fst (get_data_loop ''u'' [] 0
         (fresh_world [rate_limited ''3'', rate_limited ''1'',
                       json_response 200 (PDict [(''ok'', PBool True)])]))
     = Inr (json_response 200 (PDict [(''ok'', PBool True)]), 3)
   \<and> fst (get_data_loop ''u'' [] 0
         (fresh_world [rate_limited ''3'', rate_limited ''1'',
                       json_response 200 (PDict [(''ok'', PBool True)])]))
     \<noteq> Inr (json_response 200 (PDict [(''ok'', PBool True)]), 2)"
  by (simp add: fresh_world_def get_data_loop_retry [where t = 5]
      get_data_loop_retry [where t = 3] retry_wait_rate_limited_3 retry_wait_rate_limited_1
      get_data_loop_return json_response_def MAX_RETRIES_def)

text \<open>
  Claim C2, as the code has it. Let the next \<open>MAX_RETRIES = 10\<close> responses of the server
  be rate-limit responses on which the code sleeps: status 429, a \<^verbatim>\<open>Retry-After\<close>
  header that \<^verbatim>\<open>int\<close> accepts, and a wait (the header plus 2) from 0 seconds to a
  year. Then \<^verbatim>\<open>get_data\<close> issues exactly these ten requests, leaves every later
  response unrequested, and ends in \<^verbatim>\<open>sys.exit(1)\<close>. So does the loop of
  \<^verbatim>\<open>paginated_get\<close> at whatever iteration this happens, whatever it has accumulated;
  and so does \<^verbatim>\<open>paginated_get\<close> itself when any number of pages precede the ten
  responses: it returns no data, partial or empty.
\<close>

theorem get_data_retry_exhaustion:
  assumes "list_all rate_limit_signal rs" and "length rs = 10" and "pending w = rs @ rest"
  shows "MAX_RETRIES = 10
       \<and> get_data url params w =
           (Inl (SystemExit 1),
            w\<lparr>pending := rest,
               requests := requests w @ map (\<lambda>r. (url, params, Some r)) rs,
               sleeps := sleeps w @ map (the \<circ> retry_wait) rs\<rparr>)
       \<and> length (requests (snd (get_data url params w))) = length (requests w) + 10
       \<and> paginated_loop url params combine_key cursor result page_count w =
           (Inl (SystemExit 1), with_cursor params cursor,
            w\<lparr>pending := rest,
               requests := requests w @ map (\<lambda>r. (url, with_cursor params cursor, Some r)) rs,
               sleeps := sleeps w @ map (the \<circ> retry_wait) rs\<rparr>)
       \<and> (list_all (is_page key) ps \<and> list_all (\<lambda>r. cursor_of r \<noteq> PNone) ps
            \<and> pending w0 = ps @ rs @ rest
          \<longrightarrow> fst (paginated_get url params (Some key) w0) = Inl (SystemExit 1)
              \<and> length (requests (snd (snd (paginated_get url params (Some key) w0))))
                  = length (requests w0) + length ps + 10
              \<and> pending (snd (snd (paginated_get url params (Some key) w0))) = rest)"
proof -
  from assms(1) have rw: "\<forall>r\<in>set rs. retry_wait r \<noteq> None"
    by (simp add: list_all_iff rate_limit_signal_retry_wait)
  from assms(2) have len: "length rs = MAX_RETRIES"
    by (simp add: MAX_RETRIES_def)
  have "get_data_loop url params 0 w =
     (Inl (SystemExit 1),
      w\<lparr>pending := rest,
         requests := requests w @ map (\<lambda>r. (url, params, Some r)) rs,
         sleeps := sleeps w @ map (the \<circ> retry_wait) rs\<rparr>)"
    using rw len assms(3) by (intro get_data_loop_all_limited) simp_all
  then have gd: "get_data url params w =
     (Inl (SystemExit 1),
      w\<lparr>pending := rest,
         requests := requests w @ map (\<lambda>r. (url, params, Some r)) rs,
         sleeps := sleeps w @ map (the \<circ> retry_wait) rs\<rparr>)"
    by (simp add: get_data_def)
  note ex = paginated_loop_exhausted [OF rw len]
  have pages: "fst (paginated_get url params (Some key) w0) = Inl (SystemExit 1)
              \<and> length (requests (snd (snd (paginated_get url params (Some key) w0))))
                  = length (requests w0) + length ps + 10
              \<and> pending (snd (snd (paginated_get url params (Some key) w0))) = rest"
    if a: "list_all (is_page key) ps" "list_all (\<lambda>r. cursor_of r \<noteq> PNone) ps"
      "pending w0 = ps @ rs @ rest"
  proof -
    from paginated_loop_through_pages [OF a, of url params PNone "[]" 0]
    obtain params1 cursor1 w1 where
      l: "paginated_loop url params (Some key) PNone [] 0 w0
             = paginated_loop url params1 (Some key) cursor1
                 ([] @ concat (map (items_of key) ps)) (0 + length ps) w1"
      and w1: "pending w1 = rs @ rest" "length (requests w1) = length (requests w0) + length ps"
      by blast
    show ?thesis
      using assms(2) w1(2)
      by (simp add: paginated_get_def l ex [OF w1(1)])
  qed
  show ?thesis
    using assms(2) pages by (simp add: gd ex [OF assms(3)] MAX_RETRIES_def)
qed

theorem get_data_retry_exhaustion_witness:
  "rate_limit_signal (rate_limited ''1'')
   \<and> get_data ''u'' [] (fresh_world (replicate 10 (rate_limited ''1'') @ [page_two]))
       = (Inl (SystemExit 1),
          \<lparr>pending = [page_two],
           requests = replicate 10 (''u'', [], Some (rate_limited ''1'')),
           sleeps = replicate 10 3\<rparr>)
   \<and> fst (paginated_get ''u'' [] (Some ''messages'')
         (fresh_world ([page_one] @ replicate 10 (rate_limited ''1'') @ [page_two])))
       = Inl (SystemExit 1)
   \<and> length (requests (snd (snd (paginated_get ''u'' [] (Some ''messages'')
         (fresh_world ([page_one] @ replicate 10 (rate_limited ''1'') @ [page_two]))))))
       = 11
   \<and> pending (snd (snd (paginated_get ''u'' [] (Some ''messages'')
         (fresh_world ([page_one] @ replicate 10 (rate_limited ''1'') @ [page_two])))))
       = [page_two]"
proof -
  have h1: "list_all rate_limit_signal (replicate 10 (rate_limited ''1''))"
    by (simp add: list_all_iff rate_limit_signal_1)
  have h2: "length (replicate 10 (rate_limited ''1'')) = 10"
    by simp
  have h3: "pending (fresh_world (replicate 10 (rate_limited ''1'') @ [page_two]))
            = replicate 10 (rate_limited ''1'') @ [page_two]"
    by (simp add: fresh_world_def)
  have h4: "list_all (is_page ''messages'') [page_one]"
    and h5: "list_all (\<lambda>r. cursor_of r \<noteq> PNone) [page_one]"
    by (simp_all add: is_page_fixtures cursor_of_fixtures)
  have h6: "pending (fresh_world ([page_one] @ replicate 10 (rate_limited ''1'') @ [page_two]))
            = [page_one] @ replicate 10 (rate_limited ''1'') @ [page_two]"
    by (simp add: fresh_world_def)
  have q: "requests (fresh_world rs) = []" "sleeps (fresh_world rs) = []" for rs
    by (simp_all add: fresh_world_def)
  from get_data_retry_exhaustion [OF h1 h2 h3, of "''u''" "[]" None PNone "[]" 0
      "''messages''" "[page_one]"
      "fresh_world ([page_one] @ replicate 10 (rate_limited ''1'') @ [page_two])",
      THEN conjunct2]
  show ?thesis
    using h4 h5 h6
    by (simp add: rate_limit_signal_1 retry_wait_rate_limited_1 q fresh_world_def
        map_replicate_const)
qed

text \<open>
  Claim C2 as stated, for any ten 429 responses, fails when the responses are not of this
  kind: without a \<^verbatim>\<open>Retry-After\<close> header, with one that is an HTTP date, or with one
  that gives a negative wait, \<^verbatim>\<open>get_data\<close> makes one request and ends in an exception
  that is not \<^verbatim>\<open>sys.exit\<close>.
\<close>

theorem get_data_malformed_retry_after_counterexample:
  "length (replicate 10 \<lparr>status_code = 429, reason = [], headers = [], body = None\<rparr>) = 10
   \<and> get_data ''u'' []
       (fresh_world (\<lparr>status_code = 429, reason = [], headers = [], body = None\<rparr>
          # replicate 9 \<lparr>status_code = 429, reason = [], headers = [], body = None\<rparr>))
     = (Inl (KeyError ''Retry-After''),
        \<lparr>pending = replicate 9 \<lparr>status_code = 429, reason = [], headers = [], body = None\<rparr>,
         requests = [(''u'', [],
                      Some \<lparr>status_code = 429, reason = [], headers = [], body = None\<rparr>)],
         sleeps = []\<rparr>)
   \<and> get_data ''u'' []
       (fresh_world (rate_limited ''Wed, 21 Oct 2026 07:28:00 GMT''
          # replicate 9 (rate_limited ''Wed, 21 Oct 2026 07:28:00 GMT'')))
     = (Inl ValueError,
        \<lparr>pending = replicate 9 (rate_limited ''Wed, 21 Oct 2026 07:28:00 GMT''),
         requests = [(''u'', [], Some (rate_limited ''Wed, 21 Oct 2026 07:28:00 GMT''))],
         sleeps = []\<rparr>)
   \<and> get_data ''u'' [] (fresh_world (rate_limited ''-3'' # replicate 9 (rate_limited ''-3'')))
     = (Inl ValueError,
        \<lparr>pending = replicate 9 (rate_limited ''-3''),
         requests = [(''u'', [], Some (rate_limited ''-3''))],
         sleeps = []\<rparr>)"
proof -
  have a: "get_data ''u'' []
       (fresh_world (\<lparr>status_code = 429, reason = [], headers = [], body = None\<rparr>
          # replicate 9 \<lparr>status_code = 429, reason = [], headers = [], body = None\<rparr>))
     = (Inl (KeyError ''Retry-After''),
        \<lparr>pending = replicate 9 \<lparr>status_code = 429, reason = [], headers = [], body = None\<rparr>,
         requests = [(''u'', [],
                      Some \<lparr>status_code = 429, reason = [], headers = [], body = None\<rparr>)],
         sleeps = []\<rparr>)"
    by (simp add: get_data_def fresh_world_def MAX_RETRIES_def
        get_data_loop_no_header [where rs =
          "replicate 9 \<lparr>status_code = 429, reason = [], headers = [], body = None\<rparr>"])
  have d: "py_int ''Wed, 21 Oct 2026 07:28:00 GMT'' = None"
    by (simp add: py_int_def int_strip_def is_int_space_def is_digit_def)
  have b: "get_data ''u'' []
       (fresh_world (rate_limited ''Wed, 21 Oct 2026 07:28:00 GMT''
          # replicate 9 (rate_limited ''Wed, 21 Oct 2026 07:28:00 GMT'')))
     = (Inl ValueError,
        \<lparr>pending = replicate 9 (rate_limited ''Wed, 21 Oct 2026 07:28:00 GMT''),
         requests = [(''u'', [], Some (rate_limited ''Wed, 21 Oct 2026 07:28:00 GMT''))],
         sleeps = []\<rparr>)"
    unfolding get_data_def fresh_world_def
    by (subst get_data_loop.simps)
       (simp add: MAX_RETRIES_def raw_get_data_def d, simp add: rate_limited_def d)
  have n: "py_int ''-3'' = Some (- 3)"
    by (simp add: py_int_def int_strip_def is_int_space_def is_digit_def digit_val_def
        INT_MAX_STR_DIGITS_def)
  have c: "get_data ''u'' [] (fresh_world (rate_limited ''-3'' # replicate 9 (rate_limited ''-3'')))
     = (Inl ValueError,
        \<lparr>pending = replicate 9 (rate_limited ''-3''),
         requests = [(''u'', [], Some (rate_limited ''-3''))],
         sleeps = []\<rparr>)"
    unfolding get_data_def fresh_world_def
    by (subst get_data_loop.simps)
       (simp add: MAX_RETRIES_def raw_get_data_def, 
        simp add: rate_limited_def n sleep_def ADDITIONAL_SLEEP_TIME_def SLEEP_SECONDS_MAX_def)
  show ?thesis
    by (simp add: a b c)
qed

text \<open>
  Claim C10. A 429 response without a \<^verbatim>\<open>Retry-After\<close> header, received at any
  iteration of the retry loop, ends \<^verbatim>\<open>get_data\<close> with the \<^verbatim>\<open>KeyError\<close> of the header
  lookup: no \<^verbatim>\<open>sys.exit\<close>, no sleep of a default duration, no further request.
\<close>

theorem get_data_missing_retry_after:
  assumes "attempt < MAX_RETRIES" and "pending w = r # rs" and "status_code r = 429"
    and "map_of (headers r) ''Retry-After'' = None"
  shows "get_data_loop url params attempt w =
           (Inl (KeyError ''Retry-After''),
            w\<lparr>pending := rs, requests := requests w @ [(url, params, Some r)]\<rparr>)
       \<and> fst (get_data_loop url params attempt w) \<noteq> Inl (SystemExit 1)
       \<and> sleeps (snd (get_data_loop url params attempt w)) = sleeps w"
  using assms by (simp add: get_data_loop_no_header)

theorem get_data_missing_retry_after_witness:
  "(0::nat) < MAX_RETRIES
   \<and> get_data ''u'' []
       (fresh_world [\<lparr>status_code = 429, reason = [], headers = [], body = None\<rparr>])
     = (Inl (KeyError ''Retry-After''),
        \<lparr>pending = [],
         requests = [(''u'', [],
                      Some \<lparr>status_code = 429, reason = [], headers = [], body = None\<rparr>)],
         sleeps = []\<rparr>)"
proof -
  have h: "(0::nat) < MAX_RETRIES" by (simp add: MAX_RETRIES_def)
  show ?thesis
    using h get_data_missing_retry_after [OF h,
        of "fresh_world [\<lparr>status_code = 429, reason = [], headers = [], body = None\<rparr>]"
           "\<lparr>status_code = 429, reason = [], headers = [], body = None\<rparr>" "[]" "''u''" "[]"]
    by (simp add: fresh_world_def get_data_def)
qed

section \<open>One page\<close>

text \<open>
  Claim C4, as the code has it. Let \<open>r\<close> be the response that the retry layer returns
  to \<^verbatim>\<open>get_at_cursor\<close>. The call ends in \<^verbatim>\<open>sys.exit(1)\<close> exactly when the status of
  \<open>r\<close> is not 200, or its payload is an object whose \<^verbatim>\<open>ok\<close> is the boolean false.
  When the status is 200 and the payload is an object whose \<^verbatim>\<open>ok\<close> is anything else and
  whose \<^verbatim>\<open>response_metadata\<close>, if present, is an object, the call returns the payload
  with its continuation token (\<open>PNone\<close> when there is none).
\<close>

theorem get_at_cursor_fatal_iff:
  assumes "get_data url (with_cursor params cursor) w = (Inr r, w1)"
  shows "(fst (get_at_cursor url params cursor w) = Inl (SystemExit 1)
          \<longleftrightarrow> status_code r \<noteq> 200
              \<or> (\<exists>d. body r = Some d \<and> subscript d ''ok'' = Inr (PBool False)))
       \<and> (status_code r = 200 \<and> body r = Some (PDict kv) \<and> map_of kv ''ok'' = Some ok
            \<and> ok \<noteq> PBool False \<and> metadata_is_object kv
          \<longrightarrow> get_at_cursor url params cursor w
                = (Inr (page_cursor kv, PDict kv), with_cursor params cursor, w1))"
proof -
  have "fst (get_at_cursor url params cursor w) = Inl (SystemExit 1)
          \<longleftrightarrow> status_code r \<noteq> 200
              \<or> (\<exists>d. body r = Some d \<and> subscript d ''ok'' = Inr (PBool False))"
    using extract_next_cursor_not_exit subscript_not_exit
    by (auto simp: get_at_cursor_response [OF assms] split: option.splits sum.splits)
  moreover have "get_at_cursor url params cursor w
                = (Inr (page_cursor kv, PDict kv), with_cursor params cursor, w1)"
    if "status_code r = 200" "body r = Some (PDict kv)" "map_of kv ''ok'' = Some ok"
       "ok \<noteq> PBool False" "metadata_is_object kv"
    using that
    by (simp add: get_at_cursor_response [OF assms] subscript_def extract_next_cursor_object)
  ultimately show ?thesis by blast
qed

theorem get_at_cursor_fatal_iff_witness:
  "get_at_cursor ''u'' [] PNone
     (fresh_world [json_response 200
        (PDict [(''ok'', PBool True),
                (''response_metadata'', PDict [(''next_cursor'', PStr ''abc'')])])])
   = (Inr (PStr ''abc'',
           PDict [(''ok'', PBool True),
                  (''response_metadata'', PDict [(''next_cursor'', PStr ''abc'')])]),
      [],
      \<lparr>pending = [],
       requests = [(''u'', [], Some (json_response 200
          (PDict [(''ok'', PBool True),
                  (''response_metadata'', PDict [(''next_cursor'', PStr ''abc'')])])))],
       sleeps = []\<rparr>)
   \<and> fst (get_at_cursor ''u'' [] PNone
     (fresh_world [json_response 200
        (PDict [(''ok'', PBool True),
                (''response_metadata'', PDict [(''next_cursor'', PStr ''abc'')])])]))
     \<noteq> Inl (SystemExit 1)"
proof -
  let ?kv = "[(''ok'', PBool True),
              (''response_metadata'', PDict [(''next_cursor'', PStr ''abc'')])]"
  have h: "get_data ''u'' (with_cursor [] PNone) (fresh_world [json_response 200 (PDict ?kv)])
           = (Inr (json_response 200 (PDict ?kv)),
              \<lparr>pending = [],
               requests = [(''u'', [], Some (json_response 200 (PDict ?kv)))],
               sleeps = []\<rparr>)"
    by (simp add: get_data_return [where rs = "[]"] fresh_world_def with_cursor_def
        json_response_def)
  show ?thesis
    using get_at_cursor_fatal_iff [OF h, of ?kv "PBool True"]
    by (simp add: json_response_def metadata_is_object_def page_cursor_def with_cursor_def
        str_is_blank_def strip_def is_space_def subscript_def)
qed

text \<open>
  A response with status 201 and an \<^verbatim>\<open>ok\<close> payload is a 2xx response, and
  \<^verbatim>\<open>get_at_cursor\<close> ends in \<^verbatim>\<open>sys.exit(1)\<close> on it: claim C4 as stated, with "2xx" for
  the accepted statuses, fails there.
\<close>

theorem get_at_cursor_201_counterexample:
  "200 \<le> status_code (json_response 201 (PDict [(''ok'', PBool True)]))
   \<and> status_code (json_response 201 (PDict [(''ok'', PBool True)])) < 300
   \<and> subscript (PDict [(''ok'', PBool True)]) ''ok'' = Inr (PBool True)
   \<and> fst (get_at_cursor ''u'' [] PNone
            (fresh_world [json_response 201 (PDict [(''ok'', PBool True)])]))
       = Inl (SystemExit 1)"
proof -
  have h: "get_data ''u'' (with_cursor [] PNone)
             (fresh_world [json_response 201 (PDict [(''ok'', PBool True)])])
           = (Inr (json_response 201 (PDict [(''ok'', PBool True)])),
              \<lparr>pending = [],
               requests = [(''u'', [], Some (json_response 201 (PDict [(''ok'', PBool True)])))],
               sleeps = []\<rparr>)"
    by (simp add: get_data_return [where rs = "[]"] fresh_world_def with_cursor_def
        json_response_def)
  show ?thesis
    by (subst get_at_cursor_response [OF h]) (simp add: json_response_def subscript_def)
qed

text \<open>
  Claim C5. When a page is fetched successfully at any iteration of the loop of
  \<^verbatim>\<open>paginated_get\<close> and its payload lacks the item key, the loop ends in
  \<^verbatim>\<open>sys.exit(1)\<close>: nothing is returned, whatever was accumulated before, and no further
  request is made. For the first page this is the result of \<^verbatim>\<open>paginated_get\<close> itself.
\<close>

theorem paginated_get_missing_key:
  assumes "get_at_cursor url params cursor w = (Inr (nc, PDict kv), p1, w1)"
    and "map_of kv key = None"
  shows "paginated_loop url params (Some key) cursor result page_count w
           = (Inl (SystemExit 1), p1, w1)
       \<and> (cursor = PNone \<longrightarrow>
            paginated_get url params (Some key) w = (Inl (SystemExit 1), p1, w1))"
proof -
  have m: "merge_page (Some key) (PDict kv) res = Inl (SystemExit 1)" for res
    using assms(2) by (simp add: merge_page_def subscript_def)
  have l: "paginated_loop url params (Some key) cursor res pc w = (Inl (SystemExit 1), p1, w1)"
    for res pc
    by (simp add: paginated_loop_step [OF assms(1)] m)
  have "paginated_get url params (Some key) w = (Inl (SystemExit 1), p1, w1)"
    if "cursor = PNone"
    using l [of "[]" 0] that by (simp add: paginated_get_def)
  with l show ?thesis by blast
qed

theorem paginated_get_missing_key_witness:
  "paginated_get ''u'' [] (Some ''messages'')
     (fresh_world [json_response 200 (PDict [(''ok'', PBool True)])])
   = (Inl (SystemExit 1), [],
      \<lparr>pending = [],
       requests = [(''u'', [], Some (json_response 200 (PDict [(''ok'', PBool True)])))],
       sleeps = []\<rparr>)"
proof -
  let ?r = "json_response 200 (PDict [(''ok'', PBool True)])"
  let ?w1 = "\<lparr>pending = [], requests = [(''u'', [], Some ?r)], sleeps = []\<rparr>"
  have g: "get_data ''u'' (with_cursor [] PNone) (fresh_world [?r]) = (Inr ?r, ?w1)"
    by (simp add: get_data_return [where rs = "[]"] fresh_world_def with_cursor_def
        json_response_def)
  have h: "get_at_cursor ''u'' [] PNone (fresh_world [?r])
           = (Inr (PNone, PDict [(''ok'', PBool True)]), [], ?w1)"
    by (subst get_at_cursor_response [OF g])
       (simp add: json_response_def subscript_def extract_next_cursor_def contains_def
          with_cursor_def)
  have k: "map_of [(''ok'', PBool True)] ''messages'' = None"
    by simp
  show ?thesis
    using paginated_get_missing_key [OF h k, of "[]" 0] by simp
qed

text \<open>
  Claim C6. For a successful page whose payload has no \<^verbatim>\<open>response_metadata\<close>, or no
  \<^verbatim>\<open>next_cursor\<close> in it, or a \<^verbatim>\<open>next_cursor\<close> that is null, empty or whitespace only,
  \<^verbatim>\<open>get_at_cursor\<close> returns the null cursor in every one of these cases, and the loop of
  \<^verbatim>\<open>paginated_get\<close> ends with this page: its result is the merge of this page, and the
  world is the one the request of this page left.
\<close>

theorem blank_cursor_stops:
  assumes "get_data url (with_cursor params cursor) w = (Inr r, w1)"
    and "status_code r = 200" and "body r = Some (PDict kv)"
    and "map_of kv ''ok'' = Some ok" and "ok \<noteq> PBool False"
    and "cursor_is_blank kv"
  shows "get_at_cursor url params cursor w
           = (Inr (PNone, PDict kv), with_cursor params cursor, w1)
       \<and> paginated_loop url params combine_key cursor result page_count w
           = (case merge_page combine_key (PDict kv) result of
                Inl e \<Rightarrow> (Inl e, with_cursor params cursor, w1)
              | Inr result1 \<Rightarrow> (Inr (result1, page_count + 1), with_cursor params cursor, w1))"
proof -
  from assms(6) have obj: "metadata_is_object kv" and pc: "page_cursor kv = PNone"
    by (simp_all add: cursor_is_blank_page_cursor)
  have g: "get_at_cursor url params cursor w
           = (Inr (PNone, PDict kv), with_cursor params cursor, w1)"
    using assms(2-5) obj pc
    by (simp add: get_at_cursor_response [OF assms(1)] subscript_def extract_next_cursor_object)
  show ?thesis
    by (simp add: g paginated_loop_step [OF g] split: sum.splits)
qed

theorem blank_cursor_stops_witness:
  "paginated_get ''u'' [] (Some ''messages'')
     (fresh_world
        [json_response 200
           (PDict [(''ok'', PBool True), (''messages'', PList [PInt 1]),
                   (''response_metadata'', PDict [(''next_cursor'', PStr ''  '')])]),
         json_response 200
           (PDict [(''ok'', PBool True), (''messages'', PList [PInt 2])])])
   = (Inr [PInt 1], [],
      \<lparr>pending = [json_response 200
                     (PDict [(''ok'', PBool True), (''messages'', PList [PInt 2])])],
       requests = [(''u'', [], Some (json_response 200
           (PDict [(''ok'', PBool True), (''messages'', PList [PInt 1]),
                   (''response_metadata'', PDict [(''next_cursor'', PStr ''  '')])])))],
       sleeps = []\<rparr>)"
proof -
  let ?kv = "[(''ok'', PBool True), (''messages'', PList [PInt 1]),
              (''response_metadata'', PDict [(''next_cursor'', PStr ''  '')])]"
  let ?r = "json_response 200 (PDict ?kv)"
  let ?r2 = "json_response 200 (PDict [(''ok'', PBool True), (''messages'', PList [PInt 2])])"
  let ?w1 = "\<lparr>pending = [?r2], requests = [(''u'', [], Some ?r)], sleeps = []\<rparr>"
  have g: "get_data ''u'' (with_cursor [] PNone) (fresh_world [?r, ?r2]) = (Inr ?r, ?w1)"
    by (simp add: get_data_return [where rs = "[?r2]"] fresh_world_def with_cursor_def
        json_response_def)
  have h2: "status_code ?r = 200" and h3: "body ?r = Some (PDict ?kv)"
    by (simp_all add: json_response_def)
  have h4: "map_of ?kv ''ok'' = Some (PBool True)" and h5: "PBool True \<noteq> PBool False"
    by simp_all
  have h6: "cursor_is_blank ?kv"
    by (simp add: cursor_is_blank_def is_space_def)
  show ?thesis
    using blank_cursor_stops [OF g h2 h3 h4 h5 h6, of "Some ''messages''" "[]" 0]
    by (simp add: paginated_get_def merge_page_def subscript_def iter_items_def
        with_cursor_def)
qed

text \<open>
  Claim C8 at a concrete page. Without an item key, \<^verbatim>\<open>result.extend(data)\<close> iterates
  the payload, which is a dictionary: the result holds the keys of the payload, not the
  payload nor its items.
\<close>

theorem paginated_get_no_key_yields_keys:
  "paginated_get ''u'' [] None
     (fresh_world
        [json_response 200 (PDict [(''ok'', PBool True), (''messages'', PList [PStr ''hi''])])])
   = (Inr [PStr ''ok'', PStr ''messages''], [],
      \<lparr>pending = [],
       requests = [(''u'', [], Some (json_response 200
           (PDict [(''ok'', PBool True), (''messages'', PList [PStr ''hi''])])))],
       sleeps = []\<rparr>)"
proof -
  let ?kv = "[(''ok'', PBool True), (''messages'', PList [PStr ''hi''])]"
  let ?r = "json_response 200 (PDict ?kv)"
  let ?w1 = "\<lparr>pending = [], requests = [(''u'', [], Some ?r)], sleeps = []\<rparr>"
  have g: "get_data ''u'' (with_cursor [] PNone) (fresh_world [?r]) = (Inr ?r, ?w1)"
    by (simp add: get_data_return [where rs = "[]"] fresh_world_def with_cursor_def
        json_response_def)
  have h: "get_at_cursor ''u'' [] PNone (fresh_world [?r]) = (Inr (PNone, PDict ?kv), [], ?w1)"
    by (subst get_at_cursor_response [OF g])
       (simp add: json_response_def subscript_def extract_next_cursor_def contains_def
          with_cursor_def)
  show ?thesis
    by (simp add: paginated_get_def paginated_loop_step [OF h] merge_page_def iter_items_def)
qed

section \<open>The accumulation loop\<close>

text \<open>
  Claim C3. Let the server answer with \<open>N \<ge> 1\<close> well-formed pages, of which every
  page but the last carries a continuation token and the last carries none. Then
  \<^verbatim>\<open>paginated_get\<close> returns the concatenation of the item lists of the pages, in the
  order of the pages and, within a page, in the order of its list; the length of the
  result is the sum of the lengths of the item lists. It makes exactly \<open>N\<close> requests
  (the counter \<^verbatim>\<open>page_count\<close> is \<open>N\<close> at the return), never sleeps, and leaves every
  later response unrequested.
\<close>

theorem paginated_get_complete:
  assumes "rs \<noteq> []" and "list_all (is_page key) rs"
    and "list_all (\<lambda>r. cursor_of r \<noteq> PNone) (butlast rs)" and "cursor_of (last rs) = PNone"
    and "pending w = rs @ rest"
  shows "fst (paginated_get url params (Some key) w) = Inr (concat (map (items_of key) rs))
       \<and> length (concat (map (items_of key) rs))
           = sum_list (map (\<lambda>r. length (items_of key r)) rs)
       \<and> fst (paginated_loop url params (Some key) PNone [] 0 w)
           = Inr (concat (map (items_of key) rs), length rs)
       \<and> length (requests (snd (snd (paginated_get url params (Some key) w))))
           = length (requests w) + length rs
       \<and> pending (snd (snd (paginated_get url params (Some key) w))) = rest
       \<and> sleeps (snd (snd (paginated_get url params (Some key) w))) = sleeps w"
proof -
  note l = paginated_loop_pages [OF assms, of url params PNone "[]" 0]
  obtain res p1 w1 where e: "paginated_loop url params (Some key) PNone [] 0 w = (res, p1, w1)"
    by (cases "paginated_loop url params (Some key) PNone [] 0 w") auto
  from l e have res: "res = Inr (concat (map (items_of key) rs), length rs)"
    and w1: "pending w1 = rest" "length (requests w1) = length (requests w) + length rs"
      "sleeps w1 = sleeps w"
    by simp_all
  have g: "paginated_get url params (Some key) w
           = (Inr (concat (map (items_of key) rs)), p1, w1)"
    by (simp add: paginated_get_def e res)
  have len: "length (concat (map (items_of key) rs))
           = sum_list (map (\<lambda>r. length (items_of key r)) rs)"
    by (simp add: length_concat comp_def)
  show ?thesis
    using w1 len by (simp add: g e res)
qed

theorem paginated_get_complete_witness:
  "fst (paginated_get ''u'' [] (Some ''messages'')
     (fresh_world
        [json_response 200
           (PDict [(''ok'', PBool True), (''messages'', PList [PInt 1, PInt 2]),
                   (''response_metadata'', PDict [(''next_cursor'', PStr ''c2'')])]),
         json_response 200
           (PDict [(''ok'', PBool True), (''messages'', PList [PInt 3])])]))
   = Inr [PInt 1, PInt 2, PInt 3]
   \<and> length (requests (snd (snd (paginated_get ''u'' [] (Some ''messages'')
     (fresh_world
        [json_response 200
           (PDict [(''ok'', PBool True), (''messages'', PList [PInt 1, PInt 2]),
                   (''response_metadata'', PDict [(''next_cursor'', PStr ''c2'')])]),
         json_response 200
           (PDict [(''ok'', PBool True), (''messages'', PList [PInt 3])])]))))) = 2"
proof -
  let ?r1 = "json_response 200
           (PDict [(''ok'', PBool True), (''messages'', PList [PInt 1, PInt 2]),
                   (''response_metadata'', PDict [(''next_cursor'', PStr ''c2'')])])"
  let ?r2 = "json_response 200
           (PDict [(''ok'', PBool True), (''messages'', PList [PInt 3])])"
  have h1: "[?r1, ?r2] \<noteq> []" by simp
  have h2: "list_all (is_page ''messages'') [?r1, ?r2]"
    by (simp add: is_page_def json_response_def metadata_is_object_def)
  have h3: "list_all (\<lambda>r. cursor_of r \<noteq> PNone) (butlast [?r1, ?r2])"
    by (simp add: cursor_of_def json_response_def page_cursor_def str_is_blank_def strip_def
        is_space_def)
  have h4: "cursor_of (last [?r1, ?r2]) = PNone"
    by (simp add: cursor_of_def json_response_def page_cursor_def)
  have h5: "pending (fresh_world [?r1, ?r2]) = [?r1, ?r2] @ []"
    by (simp add: fresh_world_def)
  have i1: "items_of ''messages'' ?r1 = [PInt 1, PInt 2]"
    and i2: "items_of ''messages'' ?r2 = [PInt 3]"
    by (simp_all add: items_of_def json_response_def)
  show ?thesis
    using paginated_get_complete [OF h1 h2 h3 h4 h5, of "''u''" "[]"]
    by (simp add: i1 i2 fresh_world_def)
qed

text \<open>
  Claim C7, as the code has it. Let the caller's parameter dictionary hold no
  \<^verbatim>\<open>cursor\<close> entry. Then, in the requests that one call of \<^verbatim>\<open>paginated_get\<close>
  adds to the log, the first carries no \<^verbatim>\<open>cursor\<close> parameter; a request that follows
  a rate-limited or unanswered one carries the same \<^verbatim>\<open>cursor\<close> parameter as that one
  (it repeats the request of the same page); and every other request carries exactly the
  continuation token of the response before it, which is the cursor that
  \<^verbatim>\<open>get_at_cursor\<close> returned for the preceding page.
\<close>

theorem paginated_get_cursor_chain:
  assumes "map_of params ''cursor'' = None"
  shows "\<exists>new. requests (snd (snd (paginated_get url params combine_key w))) = requests w @ new
             \<and> cursor_chain None new"
  using paginated_loop_chain [of w "requests w" None params PNone url combine_key "[]" 0] assms
  by (simp add: paginated_get_world with_cursor_def)


theorem paginated_get_cursor_chain_witness:
  "map_of [(''channel'', PStr ''C1'')] ''cursor'' = None
   \<and> requests (snd (snd (paginated_get ''u'' [(''channel'', PStr ''C1'')] (Some ''messages'')
        (fresh_world [page_one, page_two]))))
     = [(''u'', [(''channel'', PStr ''C1'')], Some page_one),
        (''u'', [(''channel'', PStr ''C1''), (''cursor'', PStr ''c2'')], Some page_two)]
   \<and> cursor_chain None
        [(''u'', [(''channel'', PStr ''C1'')], Some page_one),
         (''u'', [(''channel'', PStr ''C1''), (''cursor'', PStr ''c2'')], Some page_two)]"
proof -
  have h: "map_of [(''channel'', PStr ''C1'')] ''cursor'' = None"
    by simp
  have q: "requests (fresh_world [page_one, page_two]) = []"
    by (simp add: fresh_world_def)
  show ?thesis
    using paginated_get_cursor_chain [OF h, of "''u''" "Some ''messages''"
        "fresh_world [page_one, page_two]"]
    by (simp add: two_pages_run q next_expected_def cursor_of_fixtures status_fixtures)
qed

text \<open>
  Claim C7 as stated fails when the caller's dictionary already holds a \<^verbatim>\<open>cursor\<close>
  entry: it is sent with the first request.
\<close>

theorem first_request_cursor_counterexample:
  "map_of [(''cursor'', PStr ''x'')] ''cursor'' = Some (PStr ''x'')
   \<and> requests (snd (snd (paginated_get ''u'' [(''cursor'', PStr ''x'')] (Some ''messages'')
        (fresh_world [page_two]))))
     = [(''u'', [(''cursor'', PStr ''x'')], Some page_two)]"
  by (simp add: paginated_get_def fresh_world_def
      paginated_loop_page [where r = page_two and rs = "[]"]
      is_page_fixtures cursor_of_fixtures items_of_fixtures with_cursor_def)

text \<open>
  Claim C9, as the code has it. One call of \<^verbatim>\<open>paginated_get\<close> adds at least one
  request to the log. Every request it adds goes to the same endpoint, with the caller's
  dictionary itself or with the caller's dictionary in which the cursor of that request
  has been written under \<^verbatim>\<open>cursor\<close>: nothing else differs between the requests. The
  caller's dictionary, which \<^verbatim>\<open>get_at_cursor\<close> writes the cursor into, is after the
  call the dictionary of the last request: it holds the cursor that was sent last, when
  one was sent, and is otherwise what it was before the call.
\<close>

theorem paginated_get_params_frame:
  "\<exists>new. requests (snd (snd (paginated_get url params combine_key w))) = requests w @ new
         \<and> new \<noteq> []
         \<and> list_all (sent_with url params) new
         \<and> list_all (same_request url params) new
         \<and> fst (snd (paginated_get url params combine_key w)) = fst (snd (last new))
         \<and> sent_with url params (url, fst (snd (paginated_get url params combine_key w)), None)
         \<and> other_params (fst (snd (paginated_get url params combine_key w)))
           = other_params params"
proof -
  from paginated_loop_sent [of url params combine_key PNone "[]" 0 w]
  obtain new where a: "requests (snd (snd (paginated_get url params combine_key w)))
      = requests w @ new"
    and b: "new \<noteq> []" "list_all (sent_with url params) new"
      "fst (snd (paginated_get url params combine_key w)) = fst (snd (last new))"
    by (auto simp: paginated_get_world with_cursor_def)
  from paginated_loop_frame [of url params combine_key PNone "[]" 0 w]
  obtain new' where a': "requests (snd (snd (paginated_get url params combine_key w)))
      = requests w @ new'"
    and b': "list_all (same_request url params) new'"
      "other_params (fst (snd (paginated_get url params combine_key w))) = other_params params"
    by (auto simp: paginated_get_world)
  from a a' have "new' = new" by simp
  moreover from b(1,2) have "sent_with url params (last new)"
    by (simp add: list_all_iff)
  with b(3)
  have "sent_with url params (url, fst (snd (paginated_get url params combine_key w)), None)"
    by (cases "last new") (simp add: sent_with_def)
  ultimately show ?thesis using a b b' by blast
qed

text \<open>
  Claim C9 as stated fails on a fetch of two pages: the caller's dictionary has gained the
  \<^verbatim>\<open>cursor\<close> entry of the second request.
\<close>

theorem params_mutated_counterexample:
  "fst (snd (paginated_get ''u'' [(''channel'', PStr ''C1'')] (Some ''messages'')
        (fresh_world [page_one, page_two])))
     = [(''channel'', PStr ''C1''), (''cursor'', PStr ''c2'')]
   \<and> fst (snd (paginated_get ''u'' [(''channel'', PStr ''C1'')] (Some ''messages'')
        (fresh_world [page_one, page_two])))
     \<noteq> [(''channel'', PStr ''C1'')]"
  by (simp add: two_pages_run)

end
